theory Spec2Isabelle
  imports Main "HOL-Library.Word"
begin

section \<open>Data model of the summarizer\<close>

text \<open>
  Epochs are \<^verbatim>\<open>phase0.Epoch\<close>, an unsigned 64-bit integer: addition and subtraction
  wrap around, comparison is unsigned. Instants of \<^verbatim>\<open>time.Time\<close> are counted in
  nanoseconds since the Unix epoch, in UTC.
\<close>

type_synonym epoch = "64 word"
type_synonym time = int

definition nsPerSecond :: int where
  "nsPerSecond = 1000000000"

definition nsPerDay :: int where
  "nsPerDay = 86400 * nsPerSecond"

text \<open>\<^verbatim>\<open>time.Unix(sec, 0)\<close>, \<^verbatim>\<open>t.Unix()\<close> and \<^verbatim>\<open>t.AddDate(0, 0, days)\<close> on a UTC instant.\<close>

definition timeUnix :: "int \<Rightarrow> time" where
  "timeUnix sec = sec * nsPerSecond"

definition unixOf :: "time \<Rightarrow> int" where
  "unixOf t = t div nsPerSecond"

definition addDays :: "time \<Rightarrow> int \<Rightarrow> time" where
  "addDays t days = t + days * nsPerDay"

text \<open>
  \<^verbatim>\<open>time.Date(t.Year(), t.Month(), t.Day(), 0, 0, 0, 0, time.UTC)\<close>: the midnight that
  begins the UTC calendar day of \<open>t\<close>.
\<close>

definition startOfDay :: "time \<Rightarrow> time" where
  "startOfDay t = t - t mod nsPerDay"

text \<open>
  The number of days from 1970-01-01 to a date of the proleptic Gregorian calendar, and
  the instant \<^verbatim>\<open>time.Date(y, m, d, hh, mm, ss, 0, time.UTC)\<close>; used to write the dates
  of examples.
\<close>

definition daysFromCivil :: "int \<Rightarrow> int \<Rightarrow> int \<Rightarrow> int" where
  "daysFromCivil y m d =
     (let y' = (if m \<le> 2 then y - 1 else y);
          era = y' div 400;
          yoe = y' - era * 400;
          doy = (153 * (if m > 2 then m - 3 else m + 9) + 2) div 5 + d - 1;
          doe = yoe * 365 + yoe div 4 - yoe div 100 + doy
      in era * 146097 + doe - 719468)"

definition utcDate :: "int \<Rightarrow> int \<Rightarrow> int \<Rightarrow> int \<Rightarrow> int \<Rightarrow> int \<Rightarrow> time" where
  "utcDate y m d hh mm ss =
     timeUnix (daysFromCivil y m d * 86400 + hh * 3600 + mm * 60 + ss)"

text \<open>
  The checkpoint record. Its declaration is not part of the sources at hand; the fields
  are those the handler reads: three epoch counters, the Unix time in seconds of the last
  summarized day (\<open>-1\<close> before the first one) and the rollup flag.
\<close>

record metadata =
  LastEpoch :: epoch
  LastBlockEpoch :: epoch
  LastValidatorEpoch :: epoch
  LastValidatorDay :: int
  PeriodicValidatorRollups :: bool

text \<open>
  Errors: \<^verbatim>\<open>errors.New\<close>, \<^verbatim>\<open>errors.Wrap\<close>, and the two wrappers whose message is
  formatted with an epoch or with a day.
\<close>

datatype error =
    ErrNew string
  | ErrWrap error string
  | ErrWrapEpoch error string epoch
  | ErrWrapDay error string time

datatype level = Trace | Debug | Warn | Error

text \<open>What a pass does that can be observed from outside, oldest first.\<close>

datatype event =
    Logged level string
  | EpochSummarized epoch
  | BlocksSummarized epoch
  | ValidatorsSummarized epoch
  | DaySummarized time
  | Pruned epoch
  | EpochProcessed epoch

text \<open>
  The fields of \<^verbatim>\<open>Service\<close> that the handler consults. \<open>validatorEpochRetention\<close> is a
  pointer: \<open>None\<close> is nil, no retention policy.
\<close>

record service =
  epochSummaries :: bool
  blockSummaries :: bool
  validatorSummaries :: bool
  maxDaysPerRun :: epoch
  validatorEpochRetention :: "int option"

text \<open>
  The collaborators, as seen by one pass: what each call into the store, the chain data
  provider and the chain clock answers. \<open>readErr n\<close> is the error of the \<open>n\<close>-th read
  of the checkpoint, \<open>failedRead\<close> the record pointer a failing read hands back with
  its error (\<open>None\<close> is nil). \<open>epochResult\<close> is the pair \<^verbatim>\<open>(updated, err)\<close> of the
  per-epoch computation. \<open>epochsPerDay\<close> is the value of \<^verbatim>\<open>epochsPerDay()\<close>, which the
  source computes in floating point from the slot duration and the slots per epoch.
\<close>

record env =
  readErr :: "nat \<Rightarrow> error option"
  failedRead :: "metadata option"
  epochResult :: "epoch \<Rightarrow> bool \<times> error option"
  blocksErr :: "epoch \<Rightarrow> error option"
  validatorsErr :: "epoch \<Rightarrow> error option"
  dayErr :: "time \<Rightarrow> error option"
  pruneErr :: "epoch \<Rightarrow> error option"
  GenesisTime :: time
  StartOfEpoch :: "epoch \<Rightarrow> time"
  epochsPerDay :: epoch

text \<open>
  The mutable world: the persisted checkpoint, the number of reads of it so far, the
  single permit of \<open>activitySem\<close>, and the trace.
\<close>

record world =
  store :: metadata
  reads :: nat
  gateHeld :: bool
  trace :: "event list"

definition logged :: "level \<Rightarrow> string \<Rightarrow> world \<Rightarrow> world" where
  "logged l m w = w\<lparr>trace := trace w @ [Logged l m]\<rparr>"

definition emit :: "event \<Rightarrow> world \<Rightarrow> world" where
  "emit ev w = w\<lparr>trace := trace w @ [ev]\<rparr>"

section \<open>The checkpoint accessor and the per-unit computations\<close>

datatype read_result = ReadOk metadata | ReadFailed "metadata option" error

text \<open>
  Modelled from the spec: \<^verbatim>\<open>getMetadata\<close> is not in the sources. It reads the single
  checkpoint record afresh from the store; a failing read returns its error.
\<close>

definition getMetadata :: "env \<Rightarrow> world \<Rightarrow> read_result \<times> world" where
  "getMetadata env w =
     (case readErr env (reads w) of
        None \<Rightarrow> (ReadOk (store w), w\<lparr>reads := Suc (reads w)\<rparr>)
      | Some err \<Rightarrow> (ReadFailed (failedRead env) err, w\<lparr>reads := Suc (reads w)\<rparr>))"

text \<open>
  Modelled from the spec: \<^verbatim>\<open>summarizeEpoch\<close> is not in the sources. It computes and
  persists the summary of one epoch and then advances \<open>lastEpoch\<close> to it, in the record
  it was handed and in the store; on an error or on insufficient data it changes nothing.
\<close>

definition summarizeEpoch ::
  "env \<Rightarrow> metadata \<Rightarrow> epoch \<Rightarrow> world \<Rightarrow> (bool \<times> error option) \<times> metadata \<times> world" where
  "summarizeEpoch env md epoch w =
     (case epochResult env epoch of
        (updated, Some err) \<Rightarrow> ((updated, Some err), md, w)
      | (False, None) \<Rightarrow> ((False, None), md, w)
      | (True, None) \<Rightarrow>
          (let md' = md\<lparr>LastEpoch := epoch\<rparr>
           in ((True, None), md', emit (EpochSummarized epoch) (w\<lparr>store := md'\<rparr>))))"

text \<open>
  Modelled from the spec: \<^verbatim>\<open>summarizeBlocksInEpoch\<close> is not in the sources. It persists
  the block summaries of one epoch and advances \<open>lastBlockEpoch\<close> to it.
\<close>

definition summarizeBlocksInEpoch ::
  "env \<Rightarrow> metadata \<Rightarrow> epoch \<Rightarrow> world \<Rightarrow> error option \<times> metadata \<times> world" where
  "summarizeBlocksInEpoch env md epoch w =
     (case blocksErr env epoch of
        Some err \<Rightarrow> (Some err, md, w)
      | None \<Rightarrow>
          (let md' = md\<lparr>LastBlockEpoch := epoch\<rparr>
           in (None, md', emit (BlocksSummarized epoch) (w\<lparr>store := md'\<rparr>))))"

text \<open>
  Modelled from the spec: \<^verbatim>\<open>summarizeValidatorsInEpoch\<close> is not in the sources. It
  persists the validator summaries of one epoch and advances \<open>lastValidatorEpoch\<close> to it.
\<close>

definition summarizeValidatorsInEpoch ::
  "env \<Rightarrow> metadata \<Rightarrow> epoch \<Rightarrow> world \<Rightarrow> error option \<times> metadata \<times> world" where
  "summarizeValidatorsInEpoch env md epoch w =
     (case validatorsErr env epoch of
        Some err \<Rightarrow> (Some err, md, w)
      | None \<Rightarrow>
          (let md' = md\<lparr>LastValidatorEpoch := epoch\<rparr>
           in (None, md', emit (ValidatorsSummarized epoch) (w\<lparr>store := md'\<rparr>))))"

text \<open>
  Modelled from the spec: \<^verbatim>\<open>summarizeValidatorsInDay\<close> is not in the sources. It
  persists the validator summaries of the day that starts at \<open>timestamp\<close> and advances
  \<open>lastValidatorDay\<close> to that day's Unix time.
\<close>

definition summarizeValidatorsInDay ::
  "env \<Rightarrow> metadata \<Rightarrow> time \<Rightarrow> world \<Rightarrow> error option \<times> metadata \<times> world" where
  "summarizeValidatorsInDay env md timestamp w =
     (case dayErr env timestamp of
        Some err \<Rightarrow> (Some err, md, w)
      | None \<Rightarrow>
          (let md' = md\<lparr>LastValidatorDay := unixOf timestamp\<rparr>
           in (None, md', emit (DaySummarized timestamp) (w\<lparr>store := md'\<rparr>))))"

text \<open>
  Modelled from the spec: \<^verbatim>\<open>prune\<close> is not in the sources. It deletes the
  validator-epoch summaries that fall out of the retention window relative to
  \<open>summaryEpoch\<close>; it does not touch the checkpoint.
\<close>

definition prune :: "env \<Rightarrow> epoch \<Rightarrow> world \<Rightarrow> error option \<times> world" where
  "prune env summaryEpoch w =
     (case pruneErr env summaryEpoch of
        Some err \<Rightarrow> (Some err, w)
      | None \<Rightarrow> (None, emit (Pruned summaryEpoch) w))"

text \<open>\<^verbatim>\<open>monitorEpochProcessed\<close>, the "epoch processed" signal.\<close>

definition monitorEpochProcessed :: "epoch \<Rightarrow> world \<Rightarrow> world" where
  "monitorEpochProcessed finalizedEpoch w = emit (EpochProcessed finalizedEpoch) w"

section \<open>The stages\<close>

text \<open>Resuming: \<^verbatim>\<open>if last != 0 { last++ }\<close>.\<close>

definition resumeFrom :: "epoch \<Rightarrow> epoch" where
  "resumeFrom lastDone = (if lastDone \<noteq> 0 then lastDone + 1 else lastDone)"

definition maxEpochsPerRun :: "service \<Rightarrow> env \<Rightarrow> epoch" where
  "maxEpochsPerRun s env = maxDaysPerRun s * epochsPerDay env"

text \<open>
  The limit on the epochs summarised per pass, as the epoch and the validator stage both
  write it: the target after the \<^verbatim>\<open>if\<close>, for a first epoch \<open>first\<close>.
\<close>

definition limitPerRun :: "service \<Rightarrow> env \<Rightarrow> epoch \<Rightarrow> epoch \<Rightarrow> epoch" where
  "limitPerRun s env first summaryEpoch =
     (if validatorEpochRetention s \<noteq> None \<and> maxEpochsPerRun s env > 0
         \<and> summaryEpoch - first > maxEpochsPerRun s env
      then first + maxEpochsPerRun s env
      else summaryEpoch)"

text \<open>
  The ceiling of the block and the validator stage:
  \<^verbatim>\<open>if summaryEpoch > md.LastEpoch && md.LastEpoch != 0 { summaryEpoch = md.LastEpoch }\<close>.
\<close>

definition truncateToLastEpoch :: "metadata \<Rightarrow> epoch \<Rightarrow> epoch" where
  "truncateToLastEpoch md summaryEpoch =
     (if summaryEpoch > LastEpoch md \<and> LastEpoch md \<noteq> 0 then LastEpoch md else summaryEpoch)"

text \<open>
  The three epoch loops \<^verbatim>\<open>for epoch := first; epoch <= summaryEpoch; epoch++\<close>. With
  \<open>summaryEpoch = 2^64 - 1\<close> the condition never fails, so the loops are partial: \<open>None\<close>
  is a loop that does not return.
\<close>

partial_function (option) epochsLoop ::
  "env \<Rightarrow> epoch \<Rightarrow> metadata \<Rightarrow> epoch \<Rightarrow> world \<Rightarrow> (error option \<times> world) option" where
  "epochsLoop env summaryEpoch md epoch w =
     (if epoch \<le> summaryEpoch then
        (case summarizeEpoch env md epoch w of
           ((updated, Some err), md', w') \<Rightarrow>
             Some (Some (ErrWrapEpoch err ''failed to update summary for epoch %d'' epoch), w')
         | ((updated, None), md', w') \<Rightarrow>
             if \<not> updated
             then Some (None, logged Debug ''not enough data to update summary'' w')
             else epochsLoop env summaryEpoch md' (epoch + 1) w')
      else Some (None, w))"

partial_function (option) blocksLoop ::
  "env \<Rightarrow> epoch \<Rightarrow> metadata \<Rightarrow> epoch \<Rightarrow> world \<Rightarrow> (error option \<times> world) option" where
  "blocksLoop env summaryEpoch md epoch w =
     (if epoch \<le> summaryEpoch then
        (case summarizeBlocksInEpoch env md epoch w of
           (Some err, md', w') \<Rightarrow>
             Some (Some (ErrWrap err ''failed to update block summaries for epoch''), w')
         | (None, md', w') \<Rightarrow> blocksLoop env summaryEpoch md' (epoch + 1) w')
      else Some (None, w))"

partial_function (option) validatorsLoop ::
  "env \<Rightarrow> epoch \<Rightarrow> metadata \<Rightarrow> epoch \<Rightarrow> world \<Rightarrow> (error option \<times> world) option" where
  "validatorsLoop env summaryEpoch md epoch w =
     (if epoch \<le> summaryEpoch then
        (case summarizeValidatorsInEpoch env md epoch w of
           (Some err, md', w') \<Rightarrow>
             Some (Some (ErrWrapEpoch err ''failed to update validator summaries in epoch %d''
                           epoch), w')
         | (None, md', w') \<Rightarrow> validatorsLoop env summaryEpoch md' (epoch + 1) w')
      else Some (None, w))"

text \<open>The loop equations are the code equations of the loops.\<close>

declare epochsLoop.simps [code]
declare blocksLoop.simps [code]
declare validatorsLoop.simps [code]

definition summarizeEpochs ::
  "service \<Rightarrow> env \<Rightarrow> epoch \<Rightarrow> world \<Rightarrow> (error option \<times> world) option" where
  "summarizeEpochs s env summaryEpoch w =
     (if \<not> epochSummaries s then Some (None, w)
      else case getMetadata env w of
        (ReadFailed p err, w1) \<Rightarrow>
          Some (Some (ErrWrap err ''failed to obtain metadata for epoch summarizer''), w1)
      | (ReadOk md, w1) \<Rightarrow>
          (let lastEpoch = resumeFrom (LastEpoch md);
               summaryEpoch' = limitPerRun s env lastEpoch summaryEpoch
           in epochsLoop env summaryEpoch' md lastEpoch
                (logged Trace ''Epochs catchup bounds'' w1)))"

definition summarizeBlocks ::
  "service \<Rightarrow> env \<Rightarrow> epoch \<Rightarrow> world \<Rightarrow> (error option \<times> world) option" where
  "summarizeBlocks s env summaryEpoch w =
     (if \<not> blockSummaries s then Some (None, w)
      else case getMetadata env w of
        (ReadFailed p err, w1) \<Rightarrow>
          Some (Some (ErrWrap err ''failed to obtain metadata for block finality''), w1)
      | (ReadOk md, w1) \<Rightarrow>
          (let lastBlockEpoch = resumeFrom (LastBlockEpoch md);
               summaryEpoch' = truncateToLastEpoch md summaryEpoch
           in blocksLoop env summaryEpoch' md lastBlockEpoch
                (logged Trace ''Blocks catchup bounds'' w1)))"

definition summarizeValidators ::
  "service \<Rightarrow> env \<Rightarrow> epoch \<Rightarrow> world \<Rightarrow> (error option \<times> world) option" where
  "summarizeValidators s env summaryEpoch w =
     (if \<not> validatorSummaries s then Some (None, w)
      else case getMetadata env w of
        (ReadFailed p err, w1) \<Rightarrow>
          Some (Some (ErrWrap err ''failed to obtain metadata for validator summarizer''), w1)
      | (ReadOk md, w1) \<Rightarrow>
          (let summaryEpoch' = truncateToLastEpoch md summaryEpoch;
               lastValidatorEpoch = resumeFrom (LastValidatorEpoch md);
               summaryEpoch'' = limitPerRun s env lastValidatorEpoch summaryEpoch'
           in validatorsLoop env summaryEpoch'' md lastValidatorEpoch
                (logged Trace ''Validators catchup bounds'' w1)))"

text \<open>
  The day loop
  \<^verbatim>\<open>for timestamp := startTime; timestamp.Before(endTimestamp); timestamp = timestamp.AddDate(0, 0, 1)\<close>.
\<close>

function daysLoop ::
  "env \<Rightarrow> time \<Rightarrow> metadata \<Rightarrow> time \<Rightarrow> world \<Rightarrow> error option \<times> world" where
  "daysLoop env endTimestamp md timestamp w =
     (if timestamp < endTimestamp then
        (case summarizeValidatorsInDay env md timestamp w of
           (Some err, md', w') \<Rightarrow>
             (Some (ErrWrapDay err ''failed to update validator summaries for day %s''
                      timestamp), w')
         | (None, md', w') \<Rightarrow> daysLoop env endTimestamp md' (addDays timestamp 1) w')
      else (None, w))"
  by pat_completeness auto
termination
  by (relation "measure (\<lambda>(env, endTimestamp, md, timestamp, w). nat (endTimestamp - timestamp))")
     (auto simp: addDays_def nsPerDay_def nsPerSecond_def)

declare daysLoop.simps [simp del]

definition summarizeValidatorDays :: "env \<Rightarrow> world \<Rightarrow> error option \<times> world" where
  "summarizeValidatorDays env w =
     (case getMetadata env w of
        (ReadFailed p err, w1) \<Rightarrow>
          (Some (ErrWrap err ''failed to obtain metadata for validator day summarizer''), w1)
      | (ReadOk md, w1) \<Rightarrow>
          (let epochSummariesTime = StartOfEpoch env (LastValidatorEpoch md);
               daySummariesTime = timeUnix (LastValidatorDay md);
               w2 = logged Trace ''Times'' w1
           in if epochSummariesTime > addDays daySummariesTime 1 then
                (let startTime = (if LastValidatorDay md = - 1
                                  then startOfDay (GenesisTime env)
                                  else addDays daySummariesTime 1);
                     endTimestamp = addDays epochSummariesTime (- 1)
                 in daysLoop env endTimestamp md startTime w2)
              else (None, w2)))"

section \<open>The coordinator\<close>

text \<open>The ways in which a call of the handler ends.\<close>

datatype exit = GateBusy | EpochZero | StageFailed | Finished | NilDereference

text \<open>The \<^verbatim>\<open>md\<close> of \<^verbatim>\<open>md, err := s.getMetadata(ctx)\<close>.\<close>

definition recordOf :: "read_result \<Rightarrow> metadata option" where
  "recordOf r = (case r of ReadOk md \<Rightarrow> Some md | ReadFailed p err \<Rightarrow> p)"

text \<open>
  The end of the handler, from the read of the checkpoint for the day summarizer on. A
  failed read is logged and the handler goes on to \<^verbatim>\<open>md.PeriodicValidatorRollups\<close>;
  on a nil \<open>md\<close> that is a nil dereference.
\<close>

definition rollupsAndSignal :: "env \<Rightarrow> epoch \<Rightarrow> epoch \<Rightarrow> world \<Rightarrow> exit \<times> world" where
  "rollupsAndSignal env finalizedEpoch summaryEpoch w =
     (case getMetadata env w of (r, w1) \<Rightarrow>
        (let w2 = (case r of
                     ReadFailed p err \<Rightarrow>
                       logged Error ''Failed to obtain metadata for day summarizer'' w1
                   | ReadOk md \<Rightarrow> w1);
             finish = (\<lambda>w'. (Finished, logged Trace ''Finished handling finality checkpoint''
                                         (monitorEpochProcessed finalizedEpoch w')))
         in case recordOf r of
              None \<Rightarrow> (NilDereference, w2)
            | Some md \<Rightarrow>
                if PeriodicValidatorRollups md then
                  (case summarizeValidatorDays env w2 of
                     (Some err, w3) \<Rightarrow>
                       (StageFailed, logged Warn ''Failed to update validator days'' w3)
                   | (None, w3) \<Rightarrow>
                       (case prune env summaryEpoch w3 of
                          (Some err, w4) \<Rightarrow>
                            (StageFailed, logged Warn ''Failed to prune summaries'' w4)
                        | (None, w4) \<Rightarrow> finish w4))
                else finish w2))"

text \<open>The handler once it holds the permit: the three epoch stages, then the end above.\<close>

definition runStages :: "service \<Rightarrow> env \<Rightarrow> epoch \<Rightarrow> world \<Rightarrow> (exit \<times> world) option" where
  "runStages s env finalizedEpoch w =
     (if finalizedEpoch = 0
      then Some (EpochZero, logged Debug ''Not summarizing on epoch 0'' w)
      else
        (let summaryEpoch = finalizedEpoch - 1
         in case summarizeEpochs s env summaryEpoch w of
              None \<Rightarrow> None
            | Some (Some err, w1) \<Rightarrow>
                Some (StageFailed, logged Warn ''Failed to update epochs'' w1)
            | Some (None, w1) \<Rightarrow>
                (case summarizeBlocks s env summaryEpoch w1 of
                   None \<Rightarrow> None
                 | Some (Some err, w2) \<Rightarrow>
                     Some (StageFailed, logged Warn ''Failed to update blocks'' w2)
                 | Some (None, w2) \<Rightarrow>
                     (case summarizeValidators s env summaryEpoch w2 of
                        None \<Rightarrow> None
                      | Some (Some err, w3) \<Rightarrow>
                          Some (StageFailed, logged Warn ''Failed to update validators'' w3)
                      | Some (None, w3) \<Rightarrow>
                          Some (rollupsAndSignal env finalizedEpoch summaryEpoch w3)))))"

text \<open>
  \<^verbatim>\<open>OnFinalityUpdated\<close>: \<^verbatim>\<open>TryAcquire(1)\<close> on the single permit, and the deferred
  \<^verbatim>\<open>Release(1)\<close>, which also runs when the body panics.
\<close>

definition OnFinalityUpdated ::
  "service \<Rightarrow> env \<Rightarrow> epoch \<Rightarrow> world \<Rightarrow> (exit \<times> world) option" where
  "OnFinalityUpdated s env finalizedEpoch w0 =
     (let w = logged Trace ''Handler called'' w0
      in if gateHeld w then Some (GateBusy, logged Debug ''Another handler running'' w)
         else (case runStages s env finalizedEpoch (w\<lparr>gateHeld := True\<rparr>) of
                 None \<Rightarrow> None
               | Some (x, w') \<Rightarrow> Some (x, w'\<lparr>gateHeld := False\<rparr>)))"

section \<open>Service construction\<close>

text \<open>
  The capabilities \<^verbatim>\<open>New\<close> asks of the chain database. A chain database value is
  modelled by the set of these interfaces that its dynamic type implements; \<open>None\<close> is
  the nil interface value.
\<close>

datatype capability =
    ProposerDutiesProvider
  | AttestationsProvider
  | BlocksProvider
  | BlocksSetter
  | DepositsProvider
  | ValidatorsProvider
  | AttesterSlashingsProvider
  | ProposerSlashingsProvider

type_synonym chaindb_service = "capability set"

text \<open>
  The parameters of the pusher service. \<open>logLevel\<close> is a \<^verbatim>\<open>zerolog.Level\<close>, an
  \<^verbatim>\<open>int8\<close>; \<open>timeout\<close> is a \<^verbatim>\<open>time.Duration\<close>, 64-bit nanoseconds; \<open>monitor\<close>
  stands for the metrics service by its name.
\<close>

record parameters =
  logLevel :: "8 word"
  monitor :: "string option"
  listenAddress :: string
  chainDB :: "chaindb_service option"
  timeout :: "64 word"

text \<open>
  A value of the interface \<^verbatim>\<open>Parameter\<close>. Its only method, \<^verbatim>\<open>apply\<close>, is unexported and
  \<^verbatim>\<open>parameterFunc\<close> is the only type with it, so a caller outside the package has the
  values the \<^verbatim>\<open>With...\<close> functions return and the nil interface value, \<open>NilParameter\<close>.
\<close>

datatype Parameter =
    NilParameter
  | WithLogLevel "8 word"
  | WithMonitor "string option"
  | WithChainDB "chaindb_service option"
  | WithListenAddress string
  | WithTimeout "64 word"

text \<open>
  \<^verbatim>\<open>p.apply(&parameters)\<close>. On the nil interface value the call is a nil dereference,
  a panic: \<open>None\<close>.
\<close>

fun applyParameter :: "Parameter \<Rightarrow> parameters \<Rightarrow> parameters option" where
  "applyParameter NilParameter p = None"
| "applyParameter (WithLogLevel l) p = Some (p\<lparr>logLevel := l\<rparr>)"
| "applyParameter (WithMonitor m) p = Some (p\<lparr>monitor := m\<rparr>)"
| "applyParameter (WithChainDB db) p = Some (p\<lparr>chainDB := db\<rparr>)"
| "applyParameter (WithListenAddress a) p = Some (p\<lparr>listenAddress := a\<rparr>)"
| "applyParameter (WithTimeout t) p = Some (p\<lparr>timeout := t\<rparr>)"

text \<open>
  \<^verbatim>\<open>for _, p := range params { if params != nil { p.apply(&parameters) } }\<close>. The slice
  \<open>params\<close> is the list \<open>allParams\<close>; a nil slice is the empty list. The test is on the
  slice, not on the element \<open>p\<close>, so a nil element is applied like any other, and the
  loop ends in the panic of that call.
\<close>

fun applyAll :: "Parameter list \<Rightarrow> Parameter list \<Rightarrow> parameters \<Rightarrow> parameters option" where
  "applyAll allParams [] p = Some p"
| "applyAll allParams (x # xs) p =
     (if allParams \<noteq> []
      then (case applyParameter x p of
              None \<Rightarrow> None
            | Some p' \<Rightarrow> applyAll allParams xs p')
      else applyAll allParams xs p)"

definition twoMinutes :: "64 word" where
  "twoMinutes = 2 * (60 * 1000000000)"

text \<open>
  The record \<^verbatim>\<open>parseAndCheckParameters\<close> starts from: the global log level, a timeout of
  two minutes, and Go's zero value in the other fields.
\<close>

definition defaultParameters :: "8 word \<Rightarrow> parameters" where
  "defaultParameters globalLevel =
     \<lparr>logLevel = globalLevel, monitor = None, listenAddress = [], chainDB = None,
      timeout = twoMinutes\<rparr>"

text \<open>
  \<^verbatim>\<open>parseAndCheckParameters\<close> of the pusher. \<open>None\<close> is the panic of the loop; a call
  that returns gives \<open>Some\<close> of its error (and the nil pointer) or of its parameters.
\<close>

definition parseAndCheckParameters ::
  "8 word \<Rightarrow> Parameter list \<Rightarrow> (error + parameters) option" where
  "parseAndCheckParameters globalLevel params =
     (case applyAll params params (defaultParameters globalLevel) of
        None \<Rightarrow> None
      | Some parameters \<Rightarrow>
          Some (if chainDB parameters = None
                then Inl (ErrNew ''no chain database specified'')
                else if listenAddress parameters = []
                then Inl (ErrNew ''no listen address specified'')
                else if timeout parameters = 0 then Inl (ErrNew ''no timeout specified'')
                else Inr parameters))"

text \<open>
  The parameters of the summarizer service, of which only \<^verbatim>\<open>New\<close> is in the sources:
  the fields \<^verbatim>\<open>New\<close> decides on or copies into the flags of the service.
\<close>

record summarizerParameters =
  sLogLevel :: "8 word"
  sMonitor :: "string option"
  sChainDB :: "chaindb_service option"
  sEpochSummaries :: bool
  sBlockSummaries :: bool
  sValidatorSummaries :: bool

text \<open>The type assertion \<^verbatim>\<open>_, ok := parameters.chainDB.(chaindb.X)\<close>.\<close>

definition provides :: "chaindb_service option \<Rightarrow> capability \<Rightarrow> bool" where
  "provides db c = (case db of None \<Rightarrow> False | Some caps \<Rightarrow> c \<in> caps)"

text \<open>
  \<^verbatim>\<open>New\<close> of the summarizer. Its own \<^verbatim>\<open>parseAndCheckParameters\<close> and
  \<^verbatim>\<open>registerMetrics\<close> are not in the sources: \<open>parsed\<close> is what the former returns
  for the parameters given, in a call of it that returns, and \<open>registerMetrics\<close> what
  the latter returns for a monitor. The fields of \<open>service\<close> that this \<^verbatim>\<open>New\<close> does
  not set keep Go's zero value.
\<close>

definition New ::
  "(error + summarizerParameters) \<Rightarrow> (string option \<Rightarrow> error option) \<Rightarrow> error + service" where
  "New parsed registerMetrics =
     (case parsed of
        Inl err \<Rightarrow> Inl (ErrWrap err ''problem with parameters'')
      | Inr parameters \<Rightarrow>
          if registerMetrics (sMonitor parameters) \<noteq> None
          then Inl (ErrNew ''failed to register metrics'')
          else if \<not> provides (sChainDB parameters) ProposerDutiesProvider
          then Inl (ErrNew ''chain DB does not provide proposer duties'')
          else if \<not> provides (sChainDB parameters) AttestationsProvider
          then Inl (ErrNew ''chain DB does not provide attestations'')
          else if \<not> provides (sChainDB parameters) BlocksProvider
          then Inl (ErrNew ''chain DB does not provide blocks'')
          else if \<not> provides (sChainDB parameters) BlocksSetter
          then Inl (ErrNew ''chain DB does not support block setting'')
          else if \<not> provides (sChainDB parameters) DepositsProvider
          then Inl (ErrNew ''chain DB does not provide deposits'')
          else if \<not> provides (sChainDB parameters) ValidatorsProvider
          then Inl (ErrNew ''chain DB does not provide validators'')
          else if \<not> provides (sChainDB parameters) AttesterSlashingsProvider
          then Inl (ErrNew ''chain DB does not provide attester slashings'')
          else if \<not> provides (sChainDB parameters) ProposerSlashingsProvider
          then Inl (ErrNew ''chain DB does not provide proposer slashings'')
          else Inr \<lparr>epochSummaries = sEpochSummaries parameters,
                    blockSummaries = sBlockSummaries parameters,
                    validatorSummaries = sValidatorSummaries parameters,
                    maxDaysPerRun = 0, validatorEpochRetention = None\<rparr>)"

text \<open>The error \<^verbatim>\<open>New\<close> names for a capability.\<close>

fun missingCapability :: "capability \<Rightarrow> error" where
  "missingCapability ProposerDutiesProvider = ErrNew ''chain DB does not provide proposer duties''"
| "missingCapability AttestationsProvider = ErrNew ''chain DB does not provide attestations''"
| "missingCapability BlocksProvider = ErrNew ''chain DB does not provide blocks''"
| "missingCapability BlocksSetter = ErrNew ''chain DB does not support block setting''"
| "missingCapability DepositsProvider = ErrNew ''chain DB does not provide deposits''"
| "missingCapability ValidatorsProvider = ErrNew ''chain DB does not provide validators''"
| "missingCapability AttesterSlashingsProvider =
     ErrNew ''chain DB does not provide attester slashings''"
| "missingCapability ProposerSlashingsProvider =
     ErrNew ''chain DB does not provide proposer slashings''"

text \<open>The capabilities in the order in which \<^verbatim>\<open>New\<close> asks for them.\<close>

definition requiredCapabilities :: "capability list" where
  "requiredCapabilities =
     [ProposerDutiesProvider, AttestationsProvider, BlocksProvider, BlocksSetter,
      DepositsProvider, ValidatorsProvider, AttesterSlashingsProvider,
      ProposerSlashingsProvider]"

section \<open>Reading a trace\<close>

text \<open>The events a call appended to the trace.\<close>

definition newEvents :: "world \<Rightarrow> world \<Rightarrow> event list" where
  "newEvents w w' = drop (length (trace w)) (trace w')"

text \<open>
  The events of the three epoch stages, with no epoch beyond \<open>t\<close>: their log lines and
  the summaries they persist.
\<close>

fun epochWorkUpTo :: "epoch \<Rightarrow> event \<Rightarrow> bool" where
  "epochWorkUpTo t (Logged l m) =
     (m \<in> set [''Epochs catchup bounds'', ''Blocks catchup bounds'',
                ''Validators catchup bounds'', ''not enough data to update summary''])"
| "epochWorkUpTo t (EpochSummarized x) = (x \<le> t)"
| "epochWorkUpTo t (BlocksSummarized x) = (x \<le> t)"
| "epochWorkUpTo t (ValidatorsSummarized x) = (x \<le> t)"
| "epochWorkUpTo t (DaySummarized d) = False"
| "epochWorkUpTo t (Pruned x) = False"
| "epochWorkUpTo t (EpochProcessed x) = False"

text \<open>
  The events that show the day aggregator or the pruner at work: what they persist, the
  log line the day aggregator writes after its read, and the two log lines the handler
  writes when one of them fails.
\<close>

fun dayOrPruneEvent :: "event \<Rightarrow> bool" where
  "dayOrPruneEvent (DaySummarized d) = True"
| "dayOrPruneEvent (Pruned x) = True"
| "dayOrPruneEvent (Logged l m) =
     (m \<in> set [''Times'', ''Failed to update validator days'', ''Failed to prune summaries''])"
| "dayOrPruneEvent (EpochSummarized x) = False"
| "dayOrPruneEvent (BlocksSummarized x) = False"
| "dayOrPruneEvent (ValidatorsSummarized x) = False"
| "dayOrPruneEvent (EpochProcessed x) = False"

text \<open>
  What a loop over epochs up to \<open>t\<close>, started at epoch \<open>e\<close> with the record \<open>md\<close>, may
  have done when it returns in \<open>w'\<close>: it appended epoch work up to \<open>t\<close> to the trace and
  left the store as it was, or set the field it owns (\<open>upd\<close>), in \<open>md\<close>, to an epoch it
  visited.
\<close>

definition loopPost ::
  "(metadata \<Rightarrow> epoch \<Rightarrow> metadata) \<Rightarrow> epoch \<Rightarrow> metadata \<Rightarrow> epoch \<Rightarrow> world \<Rightarrow> world \<Rightarrow> bool" where
  "loopPost upd t md e w w' \<longleftrightarrow>
     reads w' = reads w \<and> gateHeld w' = gateHeld w \<and>
     (\<exists>evs. trace w' = trace w @ evs \<and> (\<forall>ev\<in>set evs. epochWorkUpTo t ev)) \<and>
     (store w' = store w \<or>
      (\<exists>x. x \<le> t \<and> (t \<noteq> - 1 \<longrightarrow> e \<le> x) \<and> store w' = upd md x))"

text \<open>The \<open>n\<close> consecutive epochs from \<open>e\<close> on, and the days from \<open>start\<close> up to \<open>end\<close>
  exclusive, one day apart.\<close>

definition epochsFrom :: "epoch \<Rightarrow> nat \<Rightarrow> epoch list" where
  "epochsFrom e n = map (\<lambda>i. e + of_nat i) [0..<n]"

function dayRange :: "time \<Rightarrow> time \<Rightarrow> time list" where
  "dayRange start end = (if start < end then start # dayRange (addDays start 1) end else [])"
  by pat_completeness auto
termination
  by (relation "measure (\<lambda>(start, end). nat (end - start))")
     (auto simp: addDays_def nsPerDay_def nsPerSecond_def)

declare dayRange.simps [simp del]

text \<open>
  The end of the day range as the claim about the day aggregator words it: one day
  before the UTC midnight of the start of \<open>lastValidatorEpoch\<close>. The source takes one
  day before the start of that epoch itself.
\<close>

definition claimedEndTime :: "env \<Rightarrow> metadata \<Rightarrow> time" where
  "claimedEndTime env md = addDays (startOfDay (StartOfEpoch env (LastValidatorEpoch md))) (- 1)"

text \<open>
  What the day loop started at \<open>t\<close> with the record \<open>md\<close> may have done when it returns in
  \<open>w'\<close>: it appended day summaries to the trace and left the store as it was, or set
  \<open>lastValidatorDay\<close>, in \<open>md\<close>, to a day it visited.
\<close>

definition daysPost :: "metadata \<Rightarrow> time \<Rightarrow> world \<Rightarrow> world \<Rightarrow> bool" where
  "daysPost md t w w' \<longleftrightarrow>
     reads w' = reads w \<and> gateHeld w' = gateHeld w \<and>
     (\<exists>evs. trace w' = trace w @ evs \<and> (\<forall>ev\<in>set evs. \<exists>d. ev = DaySummarized d)) \<and>
     (store w' = store w \<or> (\<exists>d. t \<le> d \<and> store w' = md\<lparr>LastValidatorDay := unixOf d\<rparr>))"

text \<open>
  What the three epoch stages together may have done: they leave the rollup flag and \<open>lastValidatorDay\<close> alone, and nothing they append to the trace is an event
  of the day aggregator or of the pruner.
\<close>

definition stagesPost :: "world \<Rightarrow> world \<Rightarrow> bool" where
  "stagesPost w w' \<longleftrightarrow>
     PeriodicValidatorRollups (store w') = PeriodicValidatorRollups (store w) \<and>
     LastValidatorDay (store w') = LastValidatorDay (store w) \<and>
     (\<exists>evs. trace w' = trace w @ evs \<and> (\<forall>ev\<in>set evs. \<not> dayOrPruneEvent ev))"

text \<open>Progress of one checkpoint over another, field by field.\<close>

definition checkpointLe :: "metadata \<Rightarrow> metadata \<Rightarrow> bool" where
  "checkpointLe a b \<longleftrightarrow>
     LastEpoch a \<le> LastEpoch b \<and> LastBlockEpoch a \<le> LastBlockEpoch b \<and>
     LastValidatorEpoch a \<le> LastValidatorEpoch b \<and> LastValidatorDay a \<le> LastValidatorDay b"

text \<open>
  No epoch counter of the checkpoint is at \<open>2^64 - 1\<close>, and a target raised to the limit
  per run would not be \<open>2^64 - 1\<close>: the counters do not wrap around in the coming pass.
\<close>

definition noWrapAround :: "service \<Rightarrow> env \<Rightarrow> metadata \<Rightarrow> bool" where
  "noWrapAround s env md \<longleftrightarrow>
     LastEpoch md \<noteq> - 1 \<and> LastBlockEpoch md \<noteq> - 1 \<and> LastValidatorEpoch md \<noteq> - 1 \<and>
     resumeFrom (LastEpoch md) + maxEpochsPerRun s env \<noteq> - 1 \<and>
     resumeFrom (LastValidatorEpoch md) + maxEpochsPerRun s env \<noteq> - 1"

text \<open>
  A sequence of triggers, each with the collaborators as they answer during that pass and
  the finalized epoch, run one after the other on the same service; and the sequences
  in which no pass starts at a wrap-around and no chain has its genesis before 1970.
\<close>

fun passes :: "service \<Rightarrow> (env \<times> epoch) list \<Rightarrow> world \<Rightarrow> world option" where
  "passes s [] w = Some w"
| "passes s ((env, finalizedEpoch) # rest) w =
     (case OnFinalityUpdated s env finalizedEpoch w of
        None \<Rightarrow> None
      | Some (x, w') \<Rightarrow> passes s rest w')"

fun passesInRange :: "service \<Rightarrow> (env \<times> epoch) list \<Rightarrow> world \<Rightarrow> bool" where
  "passesInRange s [] w = True"
| "passesInRange s ((env, finalizedEpoch) # rest) w =
     (noWrapAround s env (store w) \<and> 0 \<le> GenesisTime env \<and>
      (case OnFinalityUpdated s env finalizedEpoch w of
         None \<Rightarrow> True
       | Some (x, w') \<Rightarrow> passesInRange s rest w'))"

text \<open>
  The first step of the end of the handler, on its own: the world after the read of the
  checkpoint and the log line of a failed read, and the \<^verbatim>\<open>md\<close> the handler goes on with.
\<close>

definition readForRollups :: "env \<Rightarrow> world \<Rightarrow> world \<times> metadata option" where
  "readForRollups env w =
     (case getMetadata env w of (r, w1) \<Rightarrow>
        ((case r of
            ReadFailed p err \<Rightarrow> logged Error ''Failed to obtain metadata for day summarizer'' w1
          | ReadOk md \<Rightarrow> w1),
         recordOf r))"

text \<open>A step that appended to the trace, and no event of the pruner.\<close>

definition noPrunePost :: "world \<Rightarrow> world \<Rightarrow> bool" where
  "noPrunePost w w' \<longleftrightarrow> (\<exists>evs. trace w' = trace w @ evs \<and> (\<forall>p. Pruned p \<notin> set evs))"






section \<open>Fixtures for the examples\<close>

definition freshCheckpoint :: metadata where
  "freshCheckpoint =
     \<lparr>LastEpoch = 0, LastBlockEpoch = 0, LastValidatorEpoch = 0, LastValidatorDay = - 1,
      PeriodicValidatorRollups = False\<rparr>"

text \<open>A checkpoint on which all three epoch stages have reached epoch 10.\<close>

definition caughtUp :: metadata where
  "caughtUp =
     \<lparr>LastEpoch = 10, LastBlockEpoch = 10, LastValidatorEpoch = 10, LastValidatorDay = - 1,
      PeriodicValidatorRollups = False\<rparr>"

definition idleWorld :: "metadata \<Rightarrow> world" where
  "idleWorld md = \<lparr>store = md, reads = 0, gateHeld = False, trace = []\<rparr>"

text \<open>
  Collaborators that never fail and have data for every epoch, on a chain with genesis at
  2020-12-01T12:00:00Z and 4 epochs per day.
\<close>

definition healthyEnv :: env where
  "healthyEnv =
     \<lparr>readErr = (\<lambda>n. None), failedRead = None, epochResult = (\<lambda>e. (True, None)),
      blocksErr = (\<lambda>e. None), validatorsErr = (\<lambda>e. None), dayErr = (\<lambda>t. None),
      pruneErr = (\<lambda>e. None), GenesisTime = utcDate 2020 12 1 12 0 0,
      StartOfEpoch = (\<lambda>e. utcDate 2020 12 1 12 0 0 + int (unat e) * (nsPerDay div 4)),
      epochsPerDay = 4\<rparr>"

text \<open>
  The same, but the \<open>n\<close>-th read of the checkpoint fails and hands back \<open>p\<close> with its
  error.
\<close>

definition storeFailsAt :: "nat \<Rightarrow> metadata option \<Rightarrow> env" where
  "storeFailsAt n p =
     healthyEnv\<lparr>readErr := (\<lambda>k. if k = n then Some (ErrNew ''store unavailable'') else None),
                failedRead := p\<rparr>"

definition allStages :: service where
  "allStages =
     \<lparr>epochSummaries = True, blockSummaries = True, validatorSummaries = True,
      maxDaysPerRun = 0, validatorEpochRetention = None\<rparr>"

definition noStages :: service where
  "noStages =
     \<lparr>epochSummaries = False, blockSummaries = False, validatorSummaries = False,
      maxDaysPerRun = 0, validatorEpochRetention = None\<rparr>"

text \<open>All stages, a retention policy, and at most two days per run.\<close>

definition pruningService :: service where
  "pruningService =
     \<lparr>epochSummaries = True, blockSummaries = True, validatorSummaries = True,
      maxDaysPerRun = 2, validatorEpochRetention = Some 0\<rparr>"

text \<open>A chain database that provides everything but block setting.\<close>

definition readOnlyChainDB :: chaindb_service where
  "readOnlyChainDB =
     {ProposerDutiesProvider, AttestationsProvider, BlocksProvider, DepositsProvider,
      ValidatorsProvider, AttesterSlashingsProvider, ProposerSlashingsProvider}"

definition readOnlyParameters :: summarizerParameters where
  "readOnlyParameters =
     \<lparr>sLogLevel = 0, sMonitor = None, sChainDB = Some readOnlyChainDB,
      sEpochSummaries = True, sBlockSummaries = True, sValidatorSummaries = True\<rparr>"

text \<open>The chain data provider has no validator balances yet: every epoch lacks data.\<close>

definition noDataEnv :: env where
  "noDataEnv = healthyEnv\<lparr>epochResult := (\<lambda>e. (False, None))\<rparr>"

text \<open>The chain data provider has the data of the epochs up to \<open>n\<close> and of no later one.\<close>

definition dataUpTo :: "epoch \<Rightarrow> env" where
  "dataUpTo n = healthyEnv\<lparr>epochResult := (\<lambda>e. (e \<le> n, None))\<rparr>"

text \<open>
  Checkpoints without any day summary whose validator stage has reached epoch 10, which
  starts at 2020-12-04T00:00:00Z on the chain of \<open>healthyEnv\<close>, and epoch 12, which
  starts at 2020-12-04T12:00:00Z.
\<close>

definition validatorsAtEpoch :: "epoch \<Rightarrow> metadata" where
  "validatorsAtEpoch e = freshCheckpoint\<lparr>LastValidatorEpoch := e\<rparr>"

text \<open>A fresh checkpoint with the periodic validator rollups switched on.\<close>

definition rollupCheckpoint :: metadata where
  "rollupCheckpoint = freshCheckpoint\<lparr>PeriodicValidatorRollups := True\<rparr>"

text \<open>
  The world after a first pass for finalized epoch 1 with all stages and healthy
  collaborators: from the fresh checkpoint, and from the one with the rollups on.
\<close>

definition afterQuietPass :: world where
  "afterQuietPass =
     \<lparr>store = freshCheckpoint, reads = 4, gateHeld = False,
      trace = [Logged Trace ''Handler called'',
               Logged Trace ''Epochs catchup bounds'', EpochSummarized 0,
               Logged Trace ''Blocks catchup bounds'', BlocksSummarized 0,
               Logged Trace ''Validators catchup bounds'', ValidatorsSummarized 0,
               EpochProcessed 1,
               Logged Trace ''Finished handling finality checkpoint'']\<rparr>"

definition afterRollupPass :: world where
  "afterRollupPass =
     \<lparr>store = rollupCheckpoint, reads = 5, gateHeld = False,
      trace = [Logged Trace ''Handler called'',
               Logged Trace ''Epochs catchup bounds'', EpochSummarized 0,
               Logged Trace ''Blocks catchup bounds'', BlocksSummarized 0,
               Logged Trace ''Validators catchup bounds'', ValidatorsSummarized 0,
               Logged Trace ''Times'', Pruned 0, EpochProcessed 1,
               Logged Trace ''Finished handling finality checkpoint'']\<rparr>"

text \<open>A checkpoint on which only the epoch stage has run, up to epoch \<open>e\<close>.\<close>

definition epochsAtEpoch :: "epoch \<Rightarrow> metadata" where
  "epochsAtEpoch e = freshCheckpoint\<lparr>LastEpoch := e\<rparr>"

text \<open>
  The world after a first pass for finalized epoch 3 with all stages, when no epoch has
  data yet: the epoch stage stops at once, the other two run without a ceiling.
\<close>

definition afterUnboundedPass :: world where
  "afterUnboundedPass =
     \<lparr>store = \<lparr>LastEpoch = 0, LastBlockEpoch = 2, LastValidatorEpoch = 2,
               LastValidatorDay = - 1, PeriodicValidatorRollups = False\<rparr>,
      reads = 4, gateHeld = False,
      trace = [Logged Trace ''Handler called'',
               Logged Trace ''Epochs catchup bounds'',
               Logged Debug ''not enough data to update summary'',
               Logged Trace ''Blocks catchup bounds'', BlocksSummarized 0,
               BlocksSummarized 1, BlocksSummarized 2,
               Logged Trace ''Validators catchup bounds'', ValidatorsSummarized 0,
               ValidatorsSummarized 1, ValidatorsSummarized 2, EpochProcessed 3,
               Logged Trace ''Finished handling finality checkpoint'']\<rparr>"

text \<open>A metrics registration that succeeds for every monitor, and one that fails.\<close>

definition metricsRegistered :: "string option \<Rightarrow> error option" where
  "metricsRegistered = (\<lambda>m. None)"

definition metricsUnavailable :: "string option \<Rightarrow> error option" where
  "metricsUnavailable = (\<lambda>m. Some (ErrNew ''duplicate metrics collector registration attempted''))"

section \<open>Disabled stages\<close>

text \<open>
  C10. Each of \<open>summarizeEpochs\<close>, \<open>summarizeBlocks\<close> and \<open>summarizeValidators\<close>, when
  its enable flag is false, returns success at once and leaves the world as it was: the
  checkpoint is not read (the read counter is part of the world), and no summary and no
  checkpoint field is written.
\<close>

theorem disabled_stage_is_noop:
  "(\<not> epochSummaries s \<longrightarrow> summarizeEpochs s env summaryEpoch w = Some (None, w)) \<and>
   (\<not> blockSummaries s \<longrightarrow> summarizeBlocks s env summaryEpoch w = Some (None, w)) \<and>
   (\<not> validatorSummaries s \<longrightarrow> summarizeValidators s env summaryEpoch w = Some (None, w))"
  by (simp add: summarizeEpochs_def summarizeBlocks_def summarizeValidators_def)

theorem disabled_stage_is_noop_witness:
  "\<not> epochSummaries noStages \<and> \<not> blockSummaries noStages \<and> \<not> validatorSummaries noStages \<and>
   summarizeEpochs noStages healthyEnv 100 (idleWorld freshCheckpoint)
     = Some (None, idleWorld freshCheckpoint) \<and>
   summarizeBlocks noStages healthyEnv 100 (idleWorld freshCheckpoint)
     = Some (None, idleWorld freshCheckpoint) \<and>
   summarizeValidators noStages healthyEnv 100 (idleWorld freshCheckpoint)
     = Some (None, idleWorld freshCheckpoint)"
  using disabled_stage_is_noop [of noStages healthyEnv 100 "idleWorld freshCheckpoint"]
  by (simp add: noStages_def)

section \<open>The limit per run\<close>

text \<open>
  As long as the first epoch of the pass is not beyond the requested epoch and the sum
  does not overflow, the limit is the minimum the comment in the source announces.
\<close>

lemma limitPerRun_min:
  assumes "validatorEpochRetention s \<noteq> None" and "0 < maxEpochsPerRun s env"
    and "first \<le> summaryEpoch"
    and "unat first + unat (maxEpochsPerRun s env) < 2 ^ 64"
  shows "limitPerRun s env first summaryEpoch = min summaryEpoch (first + maxEpochsPerRun s env)"
proof -
  let ?m = "maxEpochsPerRun s env"
  have sub: "unat (summaryEpoch - first) = unat summaryEpoch - unat first"
    using assms(3) by (simp add: unat_sub)
  have add: "unat (first + ?m) = unat first + unat ?m"
    using assms(4) by (simp add: unat_word_ariths)
  have le: "unat first \<le> unat summaryEpoch"
    using assms(3) by (simp add: word_le_nat_alt)
  show ?thesis
  proof (cases "summaryEpoch - first > ?m")
    case True
    then have "unat ?m < unat summaryEpoch - unat first"
      using sub by (simp add: word_less_nat_alt)
    then have "first + ?m \<le> summaryEpoch"
      using add le by (simp add: word_le_nat_alt)
    then show ?thesis
      using True assms(1,2) by (simp add: limitPerRun_def min_def)
  next
    case False
    then have "unat summaryEpoch - unat first \<le> unat ?m"
      using sub by (simp add: word_less_nat_alt not_less)
    then have "summaryEpoch \<le> first + ?m"
      using add le by (simp add: word_le_nat_alt)
    then show ?thesis
      using False by (simp add: limitPerRun_def min_def)
  qed
qed

text \<open>
  The example of the batch bound: two days per run at 4 epochs per day, a retention
  policy, a first pass asked for epoch 100. Epochs 0 to 8 are summarized and \<open>lastEpoch\<close>
  ends at 8.
\<close>

lemma batch_bound_example:
  "summarizeEpochs pruningService healthyEnv 100 (idleWorld freshCheckpoint) =
     Some (None,
       \<lparr>store = freshCheckpoint\<lparr>LastEpoch := 8\<rparr>, reads = 1, gateHeld = False,
        trace = [Logged Trace ''Epochs catchup bounds'', EpochSummarized 0, EpochSummarized 1,
                 EpochSummarized 2, EpochSummarized 3, EpochSummarized 4, EpochSummarized 5,
                 EpochSummarized 6, EpochSummarized 7, EpochSummarized 8]\<rparr>)"
  by code_simp

text \<open>
  C2. The claim is that the limit never moves the target above the requested epoch. On a
  checkpoint that has reached epoch 10, a pass asked for epoch 10 starts at epoch 11; the
  unsigned difference \<open>10 - 11\<close> wraps around to \<open>2^64 - 1\<close>, which exceeds the 8 epochs
  allowed, and the target is raised from 10 to 19. The epoch stage then summarizes epochs
  11 to 19 and the validator stage does the same, beyond \<open>lastEpoch\<close>.
\<close>

theorem limit_raises_target_when_caught_up:
  "maxEpochsPerRun pruningService healthyEnv = 8 \<and>
   limitPerRun pruningService healthyEnv (resumeFrom (LastEpoch caughtUp)) 10 = 19 \<and>
   summarizeEpochs pruningService healthyEnv 10 (idleWorld caughtUp) =
     Some (None,
       \<lparr>store = caughtUp\<lparr>LastEpoch := 19\<rparr>, reads = 1, gateHeld = False,
        trace = [Logged Trace ''Epochs catchup bounds'', EpochSummarized 11,
                 EpochSummarized 12, EpochSummarized 13, EpochSummarized 14,
                 EpochSummarized 15, EpochSummarized 16, EpochSummarized 17,
                 EpochSummarized 18, EpochSummarized 19]\<rparr>) \<and>
   summarizeValidators pruningService healthyEnv 10 (idleWorld caughtUp) =
     Some (None,
       \<lparr>store = caughtUp\<lparr>LastValidatorEpoch := 19\<rparr>, reads = 1, gateHeld = False,
        trace = [Logged Trace ''Validators catchup bounds'', ValidatorsSummarized 11,
                 ValidatorsSummarized 12, ValidatorsSummarized 13, ValidatorsSummarized 14,
                 ValidatorsSummarized 15, ValidatorsSummarized 16, ValidatorsSummarized 17,
                 ValidatorsSummarized 18, ValidatorsSummarized 19]\<rparr>)"
  by code_simp

section \<open>Errors in the coordinator\<close>

text \<open>
  C1. The claim is that an error in any step ends the pass and that the signal is emitted
  only when every stage and read succeeded. With all stages enabled and finalized epoch 1,
  let the fourth read of the checkpoint, the one the handler makes for the day summarizer,
  fail. The handler logs the failure and goes on. If the read handed back nil, the handler
  dereferences it. If it handed back a record whose rollup flag is unset, the signal
  \<open>EpochProcessed 1\<close> is emitted after the failure; if the flag is set, the day aggregator
  and the pruner run after the failure, and the signal is emitted as well.
\<close>

theorem failed_read_does_not_end_pass:
  "OnFinalityUpdated allStages (storeFailsAt 3 None) 1 (idleWorld freshCheckpoint) =
     Some (NilDereference,
       \<lparr>store = freshCheckpoint, reads = 4, gateHeld = False,
        trace = [Logged Trace ''Handler called'',
                 Logged Trace ''Epochs catchup bounds'', EpochSummarized 0,
                 Logged Trace ''Blocks catchup bounds'', BlocksSummarized 0,
                 Logged Trace ''Validators catchup bounds'', ValidatorsSummarized 0,
                 Logged Error ''Failed to obtain metadata for day summarizer'']\<rparr>) \<and>
   OnFinalityUpdated allStages (storeFailsAt 3 (Some freshCheckpoint)) 1
       (idleWorld freshCheckpoint) =
     Some (Finished,
       \<lparr>store = freshCheckpoint, reads = 4, gateHeld = False,
        trace = [Logged Trace ''Handler called'',
                 Logged Trace ''Epochs catchup bounds'', EpochSummarized 0,
                 Logged Trace ''Blocks catchup bounds'', BlocksSummarized 0,
                 Logged Trace ''Validators catchup bounds'', ValidatorsSummarized 0,
                 Logged Error ''Failed to obtain metadata for day summarizer'',
                 EpochProcessed 1,
                 Logged Trace ''Finished handling finality checkpoint'']\<rparr>) \<and>
   OnFinalityUpdated allStages
       (storeFailsAt 3 (Some (freshCheckpoint\<lparr>PeriodicValidatorRollups := True\<rparr>))) 1
       (idleWorld freshCheckpoint) =
     Some (Finished,
       \<lparr>store = freshCheckpoint, reads = 5, gateHeld = False,
        trace = [Logged Trace ''Handler called'',
                 Logged Trace ''Epochs catchup bounds'', EpochSummarized 0,
                 Logged Trace ''Blocks catchup bounds'', BlocksSummarized 0,
                 Logged Trace ''Validators catchup bounds'', ValidatorsSummarized 0,
                 Logged Error ''Failed to obtain metadata for day summarizer'',
                 Logged Trace ''Times'', Pruned 0, EpochProcessed 1,
                 Logged Trace ''Finished handling finality checkpoint'']\<rparr>)"
  by code_simp

section \<open>What a loop and a stage can change\<close>

lemma word_succ_le:
  fixes e t :: epoch
  assumes "e \<le> t" and "t \<noteq> - 1"
  shows "e \<le> e + 1"
proof -
  have "e \<noteq> - 1"
    using assms by (auto simp: word_order.extremum_unique)
  then have "\<not> e + 1 \<le> e"
    by (simp add: inc_less_eq_self_iff_eq)
  then show ?thesis by simp
qed

lemma resumeFrom_ge: "l \<noteq> - 1 \<Longrightarrow> l \<le> resumeFrom l"
  using word_succ_le [of l l] by (simp add: resumeFrom_def)

lemma epochWork_not_dayOrPrune: "epochWorkUpTo t ev \<Longrightarrow> \<not> dayOrPruneEvent ev"
  by (cases ev) fastforce+

text \<open>Two ways to establish \<open>loopPost\<close>: the loop did nothing, or it did one step and the
  rest of the loop did the rest.\<close>

lemma loopPost_refl: "loopPost upd t md e w w"
  unfolding loopPost_def by (simp add: exI [of _ "[]"])

lemma loopPost_log:
  "epochWorkUpTo t (Logged l m) \<Longrightarrow> loopPost upd t md e w (logged l m w)"
  unfolding loopPost_def logged_def by (simp add: exI [of _ "[Logged l m]"])

lemma loopPost_step:
  assumes le: "e \<le> t"
    and ev: "epochWorkUpTo t ev"
    and upd: "\<And>x. upd (upd md e) x = upd md x"
    and rest: "loopPost upd t (upd md e) (e + 1) (emit ev (w\<lparr>store := upd md e\<rparr>)) w'"
  shows "loopPost upd t md e w w'"
proof -
  let ?w = "emit ev (w\<lparr>store := upd md e\<rparr>)"
  from rest obtain evs where evs:
    "trace w' = trace ?w @ evs" "\<forall>ev\<in>set evs. epochWorkUpTo t ev"
    unfolding loopPost_def by blast
  have tr: "trace w' = trace w @ (ev # evs)"
    using evs(1) by (simp add: emit_def)
  have evok: "\<forall>x\<in>set (ev # evs). epochWorkUpTo t x"
    using evs(2) ev by simp
  have step: "t \<noteq> - 1 \<Longrightarrow> e \<le> e + 1"
    using le word_succ_le by blast
  have st: "store w' = store w \<or>
      (\<exists>x. x \<le> t \<and> (t \<noteq> - 1 \<longrightarrow> e \<le> x) \<and> store w' = upd md x)"
  proof -
    from rest have "store w' = store ?w \<or>
      (\<exists>x. x \<le> t \<and> (t \<noteq> - 1 \<longrightarrow> e + 1 \<le> x) \<and> store w' = upd (upd md e) x)"
      unfolding loopPost_def by blast
    then show ?thesis
    proof
      assume "store w' = store ?w"
      then have "store w' = upd md e" by (simp add: emit_def)
      with le show ?thesis by blast
    next
      assume "\<exists>x. x \<le> t \<and> (t \<noteq> - 1 \<longrightarrow> e + 1 \<le> x) \<and> store w' = upd (upd md e) x"
      then obtain x where x: "x \<le> t" "t \<noteq> - 1 \<longrightarrow> e + 1 \<le> x" "store w' = upd (upd md e) x"
        by blast
      have "t \<noteq> - 1 \<longrightarrow> e \<le> x" using x(2) step by auto
      moreover have "store w' = upd md x" using x(3) upd by simp
      ultimately show ?thesis using x(1) by blast
    qed
  qed
  from rest have "reads w' = reads w" "gateHeld w' = gateHeld w"
    unfolding loopPost_def by (simp_all add: emit_def)
  with tr evok st show ?thesis
    unfolding loopPost_def by blast
qed

lemma epochsLoop_post:
  assumes "epochsLoop env t md e w = Some y"
  shows "loopPost (\<lambda>md x. md\<lparr>LastEpoch := x\<rparr>) t md e w (snd y)"
proof (rule epochsLoop.raw_induct
    [where P = "\<lambda>env t md e w y. loopPost (\<lambda>md x. md\<lparr>LastEpoch := x\<rparr>) t md e w (snd y)",
     OF _ assms], goal_cases)
  case (1 loop env t md e w y)
  show ?case
  proof (cases "e \<le> t")
    case False
    with 1(2) have "snd y = w" by auto
    then show ?thesis by (simp add: loopPost_refl)
  next
    case True
    obtain u err where res: "epochResult env e = (u, err)"
      by (cases "epochResult env e")
    show ?thesis
    proof (cases "err = None \<and> u")
      case False
      have "snd y = w \<or> snd y = logged Debug ''not enough data to update summary'' w"
        using 1(2) True res False
        by (auto simp: summarizeEpoch_def split: bool.splits option.splits)
      then show ?thesis
        by (auto simp: loopPost_refl loopPost_log)
    next
      case upd: True
      have call: "loop env t (md\<lparr>LastEpoch := e\<rparr>) (e + 1)
                    (emit (EpochSummarized e) (w\<lparr>store := md\<lparr>LastEpoch := e\<rparr>\<rparr>)) = Some y"
        using 1(2) True res upd by (simp add: summarizeEpoch_def Let_def)
      show ?thesis
        by (rule loopPost_step [OF True _ _ 1(1)[OF call]]) (simp_all add: True)
    qed
  qed
qed

lemma blocksLoop_post:
  assumes "blocksLoop env t md e w = Some y"
  shows "loopPost (\<lambda>md x. md\<lparr>LastBlockEpoch := x\<rparr>) t md e w (snd y)"
proof (rule blocksLoop.raw_induct
    [where P = "\<lambda>env t md e w y. loopPost (\<lambda>md x. md\<lparr>LastBlockEpoch := x\<rparr>) t md e w (snd y)",
     OF _ assms], goal_cases)
  case (1 loop env t md e w y)
  show ?case
  proof (cases "e \<le> t \<and> blocksErr env e = None")
    case False
    with 1(2) have "snd y = w"
      by (auto simp: summarizeBlocksInEpoch_def split: option.splits if_splits)
    then show ?thesis by (simp add: loopPost_refl)
  next
    case True
    have call: "loop env t (md\<lparr>LastBlockEpoch := e\<rparr>) (e + 1)
                  (emit (BlocksSummarized e) (w\<lparr>store := md\<lparr>LastBlockEpoch := e\<rparr>\<rparr>)) = Some y"
      using 1(2) True by (simp add: summarizeBlocksInEpoch_def Let_def)
    show ?thesis
      by (rule loopPost_step [OF _ _ _ 1(1)[OF call]]) (simp_all add: True)
  qed
qed

lemma validatorsLoop_post:
  assumes "validatorsLoop env t md e w = Some y"
  shows "loopPost (\<lambda>md x. md\<lparr>LastValidatorEpoch := x\<rparr>) t md e w (snd y)"
proof (rule validatorsLoop.raw_induct
    [where P = "\<lambda>env t md e w y. loopPost (\<lambda>md x. md\<lparr>LastValidatorEpoch := x\<rparr>) t md e w (snd y)",
     OF _ assms], goal_cases)
  case (1 loop env t md e w y)
  show ?case
  proof (cases "e \<le> t \<and> validatorsErr env e = None")
    case False
    with 1(2) have "snd y = w"
      by (auto simp: summarizeValidatorsInEpoch_def split: option.splits if_splits)
    then show ?thesis by (simp add: loopPost_refl)
  next
    case True
    have call: "loop env t (md\<lparr>LastValidatorEpoch := e\<rparr>) (e + 1)
                  (emit (ValidatorsSummarized e) (w\<lparr>store := md\<lparr>LastValidatorEpoch := e\<rparr>\<rparr>))
                = Some y"
      using 1(2) True by (simp add: summarizeValidatorsInEpoch_def Let_def)
    show ?thesis
      by (rule loopPost_step [OF _ _ _ 1(1)[OF call]]) (simp_all add: True)
  qed
qed

text \<open>The same for the stages, whose loop starts from the record just read.\<close>

lemma summarizeEpochs_post:
  assumes "summarizeEpochs s env se w = Some (r, w')"
  defines "t \<equiv> limitPerRun s env (resumeFrom (LastEpoch (store w))) se"
  shows "gateHeld w' = gateHeld w \<and> reads w \<le> reads w' \<and>
    (\<exists>evs. trace w' = trace w @ evs \<and> (\<forall>ev\<in>set evs. epochWorkUpTo t ev)) \<and>
    store w' = (store w)\<lparr>LastEpoch := LastEpoch (store w')\<rparr> \<and>
    (LastEpoch (store w') = LastEpoch (store w) \<or> LastEpoch (store w') \<le> t) \<and>
    (t \<noteq> - 1 \<longrightarrow> LastEpoch (store w) \<noteq> - 1 \<longrightarrow> LastEpoch (store w) \<le> LastEpoch (store w'))"
proof (cases "epochSummaries s \<and> readErr env (reads w) = None")
  case False
  then have "w' = w \<or> w' = w\<lparr>reads := Suc (reads w)\<rparr>"
    using assms(1) by (auto simp: summarizeEpochs_def getMetadata_def split: option.splits if_splits)
  moreover have "\<exists>evs. trace w = trace w @ evs \<and> (\<forall>ev\<in>set evs. epochWorkUpTo t ev)"
    by (rule exI [of _ "[]"]) simp
  ultimately show ?thesis by auto
next
  case True
  let ?e = "resumeFrom (LastEpoch (store w))"
  let ?w = "logged Trace ''Epochs catchup bounds'' (w\<lparr>reads := Suc (reads w)\<rparr>)"
  have loop: "epochsLoop env t (store w) ?e ?w = Some (r, w')"
    using assms True by (simp add: summarizeEpochs_def getMetadata_def Let_def)
  note post = epochsLoop_post [OF loop, unfolded loopPost_def, simplified]
  from post obtain evs where evs: "trace w' = trace ?w @ evs"
    "\<forall>ev\<in>set evs. epochWorkUpTo t ev" by auto
  have tr: "trace w' = trace w @ (Logged Trace ''Epochs catchup bounds'' # evs)"
    using evs(1) by (simp add: logged_def)
  have evok: "\<forall>ev\<in>set (Logged Trace ''Epochs catchup bounds'' # evs). epochWorkUpTo t ev"
    using evs(2) by simp
  have st: "store w' = store w \<or>
    (\<exists>x. x \<le> t \<and> (t \<noteq> - 1 \<longrightarrow> ?e \<le> x) \<and> store w' = (store w)\<lparr>LastEpoch := x\<rparr>)"
    using post by (simp add: logged_def)
  have mono: "t \<noteq> - 1 \<longrightarrow> LastEpoch (store w) \<noteq> - 1 \<longrightarrow>
       LastEpoch (store w) \<le> LastEpoch (store w')"
    using st resumeFrom_ge [of "LastEpoch (store w)"] by auto
  have own: "store w' = (store w)\<lparr>LastEpoch := LastEpoch (store w')\<rparr>"
    using st by auto
  have bound: "LastEpoch (store w') = LastEpoch (store w) \<or> LastEpoch (store w') \<le> t"
    using st by auto
  from post have "gateHeld w' = gateHeld w" "reads w \<le> reads w'"
    by (simp_all add: logged_def)
  with tr evok own bound mono show ?thesis by blast
qed

lemma summarizeBlocks_post:
  assumes "summarizeBlocks s env se w = Some (r, w')"
  defines "t \<equiv> truncateToLastEpoch (store w) se"
  shows "gateHeld w' = gateHeld w \<and> reads w \<le> reads w' \<and>
    (\<exists>evs. trace w' = trace w @ evs \<and> (\<forall>ev\<in>set evs. epochWorkUpTo t ev)) \<and>
    store w' = (store w)\<lparr>LastBlockEpoch := LastBlockEpoch (store w')\<rparr> \<and>
    (LastBlockEpoch (store w') = LastBlockEpoch (store w) \<or> LastBlockEpoch (store w') \<le> t) \<and>
    (t \<noteq> - 1 \<longrightarrow> LastBlockEpoch (store w) \<noteq> - 1 \<longrightarrow>
       LastBlockEpoch (store w) \<le> LastBlockEpoch (store w'))"
proof (cases "blockSummaries s \<and> readErr env (reads w) = None")
  case False
  then have "w' = w \<or> w' = w\<lparr>reads := Suc (reads w)\<rparr>"
    using assms(1) by (auto simp: summarizeBlocks_def getMetadata_def split: option.splits if_splits)
  moreover have "\<exists>evs. trace w = trace w @ evs \<and> (\<forall>ev\<in>set evs. epochWorkUpTo t ev)"
    by (rule exI [of _ "[]"]) simp
  ultimately show ?thesis by auto
next
  case True
  let ?e = "resumeFrom (LastBlockEpoch (store w))"
  let ?w = "logged Trace ''Blocks catchup bounds'' (w\<lparr>reads := Suc (reads w)\<rparr>)"
  have loop: "blocksLoop env t (store w) ?e ?w = Some (r, w')"
    using assms True by (simp add: summarizeBlocks_def getMetadata_def Let_def)
  note post = blocksLoop_post [OF loop, unfolded loopPost_def, simplified]
  from post obtain evs where evs: "trace w' = trace ?w @ evs"
    "\<forall>ev\<in>set evs. epochWorkUpTo t ev" by auto
  have tr: "trace w' = trace w @ (Logged Trace ''Blocks catchup bounds'' # evs)"
    using evs(1) by (simp add: logged_def)
  have evok: "\<forall>ev\<in>set (Logged Trace ''Blocks catchup bounds'' # evs). epochWorkUpTo t ev"
    using evs(2) by simp
  have st: "store w' = store w \<or>
    (\<exists>x. x \<le> t \<and> (t \<noteq> - 1 \<longrightarrow> ?e \<le> x) \<and> store w' = (store w)\<lparr>LastBlockEpoch := x\<rparr>)"
    using post by (simp add: logged_def)
  have mono: "t \<noteq> - 1 \<longrightarrow> LastBlockEpoch (store w) \<noteq> - 1 \<longrightarrow>
       LastBlockEpoch (store w) \<le> LastBlockEpoch (store w')"
    using st resumeFrom_ge [of "LastBlockEpoch (store w)"] by auto
  have own: "store w' = (store w)\<lparr>LastBlockEpoch := LastBlockEpoch (store w')\<rparr>"
    using st by auto
  have bound: "LastBlockEpoch (store w') = LastBlockEpoch (store w) \<or>
       LastBlockEpoch (store w') \<le> t"
    using st by auto
  from post have "gateHeld w' = gateHeld w" "reads w \<le> reads w'"
    by (simp_all add: logged_def)
  with tr evok own bound mono show ?thesis by blast
qed

lemma summarizeValidators_post:
  assumes "summarizeValidators s env se w = Some (r, w')"
  defines "t \<equiv> limitPerRun s env (resumeFrom (LastValidatorEpoch (store w)))
                  (truncateToLastEpoch (store w) se)"
  shows "gateHeld w' = gateHeld w \<and> reads w \<le> reads w' \<and>
    (\<exists>evs. trace w' = trace w @ evs \<and> (\<forall>ev\<in>set evs. epochWorkUpTo t ev)) \<and>
    store w' = (store w)\<lparr>LastValidatorEpoch := LastValidatorEpoch (store w')\<rparr> \<and>
    (LastValidatorEpoch (store w') = LastValidatorEpoch (store w) \<or>
       LastValidatorEpoch (store w') \<le> t) \<and>
    (t \<noteq> - 1 \<longrightarrow> LastValidatorEpoch (store w) \<noteq> - 1 \<longrightarrow>
       LastValidatorEpoch (store w) \<le> LastValidatorEpoch (store w'))"
proof (cases "validatorSummaries s \<and> readErr env (reads w) = None")
  case False
  then have "w' = w \<or> w' = w\<lparr>reads := Suc (reads w)\<rparr>"
    using assms(1) by (auto simp: summarizeValidators_def getMetadata_def split: option.splits if_splits)
  moreover have "\<exists>evs. trace w = trace w @ evs \<and> (\<forall>ev\<in>set evs. epochWorkUpTo t ev)"
    by (rule exI [of _ "[]"]) simp
  ultimately show ?thesis by auto
next
  case True
  let ?e = "resumeFrom (LastValidatorEpoch (store w))"
  let ?w = "logged Trace ''Validators catchup bounds'' (w\<lparr>reads := Suc (reads w)\<rparr>)"
  have loop: "validatorsLoop env t (store w) ?e ?w = Some (r, w')"
    using assms True by (simp add: summarizeValidators_def getMetadata_def Let_def)
  note post = validatorsLoop_post [OF loop, unfolded loopPost_def, simplified]
  from post obtain evs where evs: "trace w' = trace ?w @ evs"
    "\<forall>ev\<in>set evs. epochWorkUpTo t ev" by auto
  have tr: "trace w' = trace w @ (Logged Trace ''Validators catchup bounds'' # evs)"
    using evs(1) by (simp add: logged_def)
  have evok: "\<forall>ev\<in>set (Logged Trace ''Validators catchup bounds'' # evs). epochWorkUpTo t ev"
    using evs(2) by simp
  have st: "store w' = store w \<or>
    (\<exists>x. x \<le> t \<and> (t \<noteq> - 1 \<longrightarrow> ?e \<le> x) \<and>
         store w' = (store w)\<lparr>LastValidatorEpoch := x\<rparr>)"
    using post by (simp add: logged_def)
  have mono: "t \<noteq> - 1 \<longrightarrow> LastValidatorEpoch (store w) \<noteq> - 1 \<longrightarrow>
       LastValidatorEpoch (store w) \<le> LastValidatorEpoch (store w')"
    using st resumeFrom_ge [of "LastValidatorEpoch (store w)"] by auto
  have own: "store w' = (store w)\<lparr>LastValidatorEpoch := LastValidatorEpoch (store w')\<rparr>"
    using st by auto
  have bound: "LastValidatorEpoch (store w') = LastValidatorEpoch (store w) \<or>
       LastValidatorEpoch (store w') \<le> t"
    using st by auto
  from post have "gateHeld w' = gateHeld w" "reads w \<le> reads w'"
    by (simp_all add: logged_def)
  with tr evok own bound mono show ?thesis by blast
qed

section \<open>Construction\<close>

text \<open>The loop over the options panics exactly when one of them is nil.\<close>

lemma applyAll_nil:
  "allParams \<noteq> [] \<Longrightarrow> NilParameter \<in> set ps \<Longrightarrow> applyAll allParams ps p = None"
proof (induction ps arbitrary: p)
  case Nil
  then show ?case by simp
next
  case (Cons x xs)
  show ?case
  proof (cases x)
    case NilParameter
    with Cons.prems(1) show ?thesis by simp
  qed (use Cons in auto)
qed

lemma applyAll_returns:
  "NilParameter \<notin> set ps \<Longrightarrow> \<exists>p'. applyAll allParams ps p = Some p'"
proof (induction ps arbitrary: p)
  case Nil
  then show ?case by simp
next
  case (Cons x xs)
  then show ?case by (cases x) auto
qed

lemma nil_option_panics:
  assumes "NilParameter \<in> set params"
  shows "parseAndCheckParameters g params = None"
proof -
  from assms have "params \<noteq> []" by auto
  then have "applyAll params params (defaultParameters g) = None"
    using assms by (rule applyAll_nil)
  then show ?thesis by (simp add: parseAndCheckParameters_def)
qed

lemma chainDB_applyAll:
  "\<forall>db. WithChainDB (Some db) \<notin> set ps \<Longrightarrow> chainDB p = None \<Longrightarrow>
   applyAll allParams ps p = Some p' \<Longrightarrow> chainDB p' = None"
proof (induction ps arbitrary: p)
  case Nil
  then show ?case by simp
next
  case (Cons x xs)
  show ?case
  proof (cases "allParams = []")
    case True
    with Cons show ?thesis by auto
  next
    case False
    with Cons.prems(3) obtain q where q: "applyParameter x p = Some q"
      and rest: "applyAll allParams xs q = Some p'"
      by (auto split: option.splits)
    have "chainDB q = None"
    proof (cases x)
      case (WithChainDB db)
      with Cons.prems(1) have "db = None" by (cases db) auto
      with WithChainDB q show ?thesis by auto
    qed (use Cons.prems(2) q in auto)
    moreover from Cons.prems(1) have "\<forall>db. WithChainDB (Some db) \<notin> set xs" by simp
    ultimately show ?thesis using rest Cons.IH by blast
  qed
qed

lemma listenAddress_applyAll:
  "\<forall>a. a \<noteq> [] \<longrightarrow> WithListenAddress a \<notin> set ps \<Longrightarrow> listenAddress p = [] \<Longrightarrow>
   applyAll allParams ps p = Some p' \<Longrightarrow> listenAddress p' = []"
proof (induction ps arbitrary: p)
  case Nil
  then show ?case by simp
next
  case (Cons x xs)
  show ?case
  proof (cases "allParams = []")
    case True
    with Cons show ?thesis by auto
  next
    case False
    with Cons.prems(3) obtain q where q: "applyParameter x p = Some q"
      and rest: "applyAll allParams xs q = Some p'"
      by (auto split: option.splits)
    have "listenAddress q = []"
      using Cons.prems(1,2) q by (cases x) auto
    moreover from Cons.prems(1) have "\<forall>a. a \<noteq> [] \<longrightarrow> WithListenAddress a \<notin> set xs"
      by simp
    ultimately show ?thesis using rest Cons.IH by blast
  qed
qed

lemma timeout_applyAll_last:
  "allParams \<noteq> [] \<Longrightarrow> applyAll allParams (ps @ [WithTimeout t]) p = Some p' \<Longrightarrow>
   timeout p' = t"
  by (induction ps arbitrary: p) (auto split: option.splits)

lemma requiredCapabilities_all: "c \<in> set requiredCapabilities"
  by (cases c) (simp_all add: requiredCapabilities_def)

text \<open>
  \<^verbatim>\<open>New\<close>, once the parameters are parsed and the metrics registered, returns the error
  of the first capability, in the order of its checks, that the chain database lacks,
  and the service when it lacks none.
\<close>

lemma New_first_missing:
  assumes "reg (sMonitor ps) = None"
  shows "New (Inr ps) reg =
           (case find (\<lambda>c. \<not> provides (sChainDB ps) c) requiredCapabilities of
              Some c \<Rightarrow> Inl (missingCapability c)
            | None \<Rightarrow> Inr \<lparr>epochSummaries = sEpochSummaries ps,
                            blockSummaries = sBlockSummaries ps,
                            validatorSummaries = sValidatorSummaries ps,
                            maxDaysPerRun = 0, validatorEpochRetention = None\<rparr>)"
  using assms by (simp add: New_def requiredCapabilities_def)

text \<open>
  C9, as it holds. For a list of options none of which is nil, parameter checking
  returns, and it returns an error and no parameters when no chain database is supplied,
  when no listen address is supplied, and when the last timeout supplied is zero; it
  returns an error exactly when the chain database, the listen address or the timeout is
  missing once all options are applied, and the parameters otherwise. \<open>New\<close> returns an
  error, and no service, whenever parameter checking returned one and whenever the
  chain database lacks one of the eight capabilities. Which error: that of parameter
  checking, wrapped, when there is one; else \<open>failed to register metrics\<close> when the
  registration fails; else the error that names the first capability, in the order of
  the checks, that the chain database lacks. Only when all eight are there is the
  service returned.
\<close>

theorem construction_refuses_missing_collaborators:
  "(NilParameter \<notin> set params \<and> (\<forall>db. WithChainDB (Some db) \<notin> set params) \<longrightarrow>
      parseAndCheckParameters g params = Some (Inl (ErrNew ''no chain database specified''))) \<and>
   (NilParameter \<notin> set params \<and> (\<forall>a. a \<noteq> [] \<longrightarrow> WithListenAddress a \<notin> set params) \<longrightarrow>
      (\<exists>e. parseAndCheckParameters g params = Some (Inl e))) \<and>
   (NilParameter \<notin> set params \<longrightarrow>
      (\<exists>e. parseAndCheckParameters g (params @ [WithTimeout 0]) = Some (Inl e))) \<and>
   (NilParameter \<notin> set params \<longrightarrow>
      (\<exists>p. applyAll params params (defaultParameters g) = Some p \<and>
           (if chainDB p = None \<or> listenAddress p = [] \<or> timeout p = 0
            then \<exists>e. parseAndCheckParameters g params = Some (Inl e)
            else parseAndCheckParameters g params = Some (Inr p)))) \<and>
   New (Inl e0) reg = Inl (ErrWrap e0 ''problem with parameters'') \<and>
   (\<not> provides (sChainDB ps) c \<longrightarrow> (\<exists>e. New (Inr ps) reg = Inl e)) \<and>
   (reg (sMonitor ps) \<noteq> None \<longrightarrow>
      New (Inr ps) reg = Inl (ErrNew ''failed to register metrics'')) \<and>
   (reg (sMonitor ps) = None \<longrightarrow>
      New (Inr ps) reg =
        (case find (\<lambda>c. \<not> provides (sChainDB ps) c) requiredCapabilities of
           Some c' \<Rightarrow> Inl (missingCapability c')
         | None \<Rightarrow> Inr \<lparr>epochSummaries = sEpochSummaries ps,
                         blockSummaries = sBlockSummaries ps,
                         validatorSummaries = sValidatorSummaries ps,
                         maxDaysPerRun = 0, validatorEpochRetention = None\<rparr>)) \<and>
   (\<not> provides (sChainDB ps) c \<and> reg (sMonitor ps) = None \<longrightarrow>
      (\<exists>c'. \<not> provides (sChainDB ps) c' \<and> New (Inr ps) reg = Inl (missingCapability c')))"
proof (intro conjI impI)
  assume a: "NilParameter \<notin> set params \<and> (\<forall>db. WithChainDB (Some db) \<notin> set params)"
  then obtain p where p: "applyAll params params (defaultParameters g) = Some p"
    using applyAll_returns by blast
  have "chainDB p = None"
    using a p chainDB_applyAll [of params "defaultParameters g" params p]
    by (simp add: defaultParameters_def)
  with p show "parseAndCheckParameters g params =
                  Some (Inl (ErrNew ''no chain database specified''))"
    by (simp add: parseAndCheckParameters_def)
next
  assume a: "NilParameter \<notin> set params \<and>
             (\<forall>a. a \<noteq> [] \<longrightarrow> WithListenAddress a \<notin> set params)"
  then obtain p where p: "applyAll params params (defaultParameters g) = Some p"
    using applyAll_returns by blast
  have "listenAddress p = []"
    using a p listenAddress_applyAll [of params "defaultParameters g" params p]
    by (simp add: defaultParameters_def)
  with p show "\<exists>e. parseAndCheckParameters g params = Some (Inl e)"
    by (simp add: parseAndCheckParameters_def)
next
  assume "NilParameter \<notin> set params"
  then have "NilParameter \<notin> set (params @ [WithTimeout 0])" by simp
  then obtain p where p: "applyAll (params @ [WithTimeout 0]) (params @ [WithTimeout 0])
                            (defaultParameters g) = Some p"
    using applyAll_returns by blast
  have "timeout p = 0"
    using p timeout_applyAll_last [of "params @ [WithTimeout 0]" params 0 "defaultParameters g" p]
    by simp
  with p show "\<exists>e. parseAndCheckParameters g (params @ [WithTimeout 0]) = Some (Inl e)"
    by (simp add: parseAndCheckParameters_def)
next
  assume "NilParameter \<notin> set params"
  then obtain p where p: "applyAll params params (defaultParameters g) = Some p"
    using applyAll_returns by blast
  then have "if chainDB p = None \<or> listenAddress p = [] \<or> timeout p = 0
            then \<exists>e. parseAndCheckParameters g params = Some (Inl e)
            else parseAndCheckParameters g params = Some (Inr p)"
    by (simp add: parseAndCheckParameters_def)
  with p show "\<exists>p. applyAll params params (defaultParameters g) = Some p \<and>
           (if chainDB p = None \<or> listenAddress p = [] \<or> timeout p = 0
            then \<exists>e. parseAndCheckParameters g params = Some (Inl e)
            else parseAndCheckParameters g params = Some (Inr p))"
    by blast
next
  show "New (Inl e0) reg = Inl (ErrWrap e0 ''problem with parameters'')"
    by (simp add: New_def)
next
  assume "\<not> provides (sChainDB ps) c"
  then show "\<exists>e. New (Inr ps) reg = Inl e"
    by (cases c) (simp_all add: New_def)
next
  assume "reg (sMonitor ps) \<noteq> None"
  then show "New (Inr ps) reg = Inl (ErrNew ''failed to register metrics'')"
    by (simp add: New_def)
next
  assume "reg (sMonitor ps) = None"
  then show "New (Inr ps) reg =
        (case find (\<lambda>c. \<not> provides (sChainDB ps) c) requiredCapabilities of
           Some c' \<Rightarrow> Inl (missingCapability c')
         | None \<Rightarrow> Inr \<lparr>epochSummaries = sEpochSummaries ps,
                         blockSummaries = sBlockSummaries ps,
                         validatorSummaries = sValidatorSummaries ps,
                         maxDaysPerRun = 0, validatorEpochRetention = None\<rparr>)"
    by (rule New_first_missing)
next
  assume a: "\<not> provides (sChainDB ps) c \<and> reg (sMonitor ps) = None"
  have "c \<in> set requiredCapabilities" by (rule requiredCapabilities_all)
  with a have "find (\<lambda>c. \<not> provides (sChainDB ps) c) requiredCapabilities \<noteq> None"
    by (auto simp: find_None_iff)
  then obtain c' where c': "find (\<lambda>c. \<not> provides (sChainDB ps) c) requiredCapabilities = Some c'"
    by auto
  then have "\<not> provides (sChainDB ps) c'" by (auto simp: find_Some_iff)
  moreover have "New (Inr ps) reg = Inl (missingCapability c')"
    using a c' by (simp add: New_first_missing)
  ultimately show "\<exists>c'. \<not> provides (sChainDB ps) c' \<and>
                        New (Inr ps) reg = Inl (missingCapability c')"
    by blast
qed

theorem construction_refuses_missing_collaborators_witness:
  "NilParameter \<notin> set [WithTimeout 5] \<and>
   (\<forall>db. WithChainDB (Some db) \<notin> set [WithTimeout 5]) \<and>
   (\<forall>a. WithListenAddress a \<notin> set [WithTimeout 5]) \<and>
   parseAndCheckParameters 1 [WithTimeout 5] =
     Some (Inl (ErrNew ''no chain database specified'')) \<and>
   (\<exists>e. parseAndCheckParameters 1 [WithTimeout 5, WithTimeout 0] = Some (Inl e)) \<and>
   \<not> provides (sChainDB readOnlyParameters) BlocksSetter \<and>
   metricsRegistered (sMonitor readOnlyParameters) = None \<and>
   find (\<lambda>c. \<not> provides (sChainDB readOnlyParameters) c) requiredCapabilities
     = Some BlocksSetter \<and>
   New (Inr readOnlyParameters) metricsRegistered = Inl (missingCapability BlocksSetter)"
proof -
  have nonil: "NilParameter \<notin> set [WithTimeout 5]"
    and none: "\<forall>db. WithChainDB (Some db) \<notin> set [WithTimeout 5]"
    and noaddr: "\<forall>a. a \<noteq> [] \<longrightarrow> WithListenAddress a \<notin> set [WithTimeout 5]"
    by simp_all
  have missing: "\<not> provides (sChainDB readOnlyParameters) BlocksSetter"
    by (simp add: provides_def readOnlyParameters_def readOnlyChainDB_def)
  have reg: "metricsRegistered (sMonitor readOnlyParameters) = None"
    by (simp add: metricsRegistered_def)
  have first: "find (\<lambda>c. \<not> provides (sChainDB readOnlyParameters) c) requiredCapabilities
                 = Some BlocksSetter"
    by (simp add: provides_def readOnlyParameters_def readOnlyChainDB_def
          requiredCapabilities_def)
  from construction_refuses_missing_collaborators
         [of "[WithTimeout 5]" 1 "ErrNew ''x''" metricsRegistered readOnlyParameters
             BlocksSetter]
       nonil none noaddr missing reg first
  show ?thesis by simp
qed

text \<open>
  C9 as stated fails on the error \<open>New\<close> returns: the metrics are registered before the
  chain database is asked for its capabilities. With a chain database that cannot set
  blocks and a registration of the metrics that fails, \<open>New\<close> returns
  \<open>failed to register metrics\<close>, which names no capability.
\<close>

theorem metrics_error_precedes_missing_capability:
  "\<not> provides (sChainDB readOnlyParameters) BlocksSetter \<and>
   New (Inr readOnlyParameters) metricsUnavailable = Inl (ErrNew ''failed to register metrics'') \<and>
   ErrNew ''failed to register metrics'' \<notin> set (map missingCapability requiredCapabilities)"
  by (simp add: New_def provides_def readOnlyParameters_def readOnlyChainDB_def
        metricsUnavailable_def requiredCapabilities_def)

section \<open>Insufficient data in the epoch stage\<close>

lemma epochsFrom_Suc: "epochsFrom e (Suc n) = e # epochsFrom (e + 1) n"
proof -
  have "[0..<Suc n] = 0 # map Suc [0..<n]"
    by (simp add: upt_conv_Cons map_Suc_upt del: upt_Suc)
  then show ?thesis
    by (simp add: epochsFrom_def comp_def add.assoc del: upt_Suc)
qed

text \<open>
  The loop started at \<open>e\<close>, with data for every epoch from \<open>e\<close> up to \<open>E\<close> exclusive and
  none for \<open>E\<close>, returns: it has summarized exactly those epochs and then stopped.
\<close>

lemma epochsLoop_until_insufficient:
  assumes "unat (E - e) = n" and "e \<le> E" and "E \<le> t"
    and "\<forall>x. e \<le> x \<and> x < E \<longrightarrow> epochResult env x = (True, None)"
    and "epochResult env E = (False, None)"
  shows "epochsLoop env t md e w =
           Some (None, logged Debug ''not enough data to update summary''
                   (w\<lparr>store := (if e = E then store w else md\<lparr>LastEpoch := E - 1\<rparr>),
                      trace := trace w @ map EpochSummarized (epochsFrom e n)\<rparr>))"
  using assms
proof (induction n arbitrary: e md w)
  case 0
  then have "e = E" by (simp add: unat_eq_0)
  with 0 show ?case
    by (subst epochsLoop.simps) (simp add: summarizeEpoch_def epochsFrom_def)
next
  case (Suc n)
  from Suc.prems(1) have ne: "e \<noteq> E" by auto
  with Suc.prems(2) have lt: "e < E" by simp
  then have data: "epochResult env e = (True, None)"
    using Suc.prems(4) by simp
  have let': "e \<le> t" using Suc.prems(2,3) by simp
  have next_le: "e + 1 \<le> E" using lt by (rule inc_le)
  have no_wrap: "e \<le> e + 1"
  proof -
    have "e \<noteq> - 1" using lt by (metis word_order.extremum_strict)
    then have "\<not> e + 1 \<le> e" by (simp add: inc_less_eq_self_iff_eq)
    then show ?thesis by simp
  qed
  have dist: "unat (E - (e + 1)) = n"
  proof -
    have "E - e \<noteq> 0" using ne by simp
    then have "unat (E - e - 1) = unat (E - e) - 1" by (rule unat_minus_one)
    then show ?thesis using Suc.prems(1) by (simp add: diff_diff_eq)
  qed
  have rest: "\<forall>x. e + 1 \<le> x \<and> x < E \<longrightarrow> epochResult env x = (True, None)"
    using Suc.prems(4) no_wrap by auto
  let ?md = "md\<lparr>LastEpoch := e\<rparr>"
  let ?w = "emit (EpochSummarized e) (w\<lparr>store := ?md\<rparr>)"
  have ih: "epochsLoop env t ?md (e + 1) ?w =
      Some (None, logged Debug ''not enough data to update summary''
              (?w\<lparr>store := (if e + 1 = E then store ?w else ?md\<lparr>LastEpoch := E - 1\<rparr>),
                  trace := trace ?w @ map EpochSummarized (epochsFrom (e + 1) n)\<rparr>))"
    by (rule Suc.IH [OF dist next_le Suc.prems(3) rest Suc.prems(5)])
  have last: "e + 1 = E \<Longrightarrow> ?md = md\<lparr>LastEpoch := E - 1\<rparr>"
    by auto
  have unfold: "epochsLoop env t md e w = epochsLoop env t ?md (e + 1) ?w"
    by (subst epochsLoop.simps) (simp add: summarizeEpoch_def data let' Let_def)
  show ?case
    unfolding unfold ih using ne last
    by (simp add: emit_def logged_def epochsFrom_Suc)
qed

text \<open>
  C6, as it holds. When the epoch stage is enabled and reads the checkpoint, and the
  per-epoch computation reports insufficient data at an epoch \<open>E\<close> of the stage's range
  after having succeeded on every earlier epoch of the range, the stage returns success.
  It has summarized the epochs before \<open>E\<close> and nothing else. If \<open>E\<close> is not 0,
  \<open>lastEpoch\<close> is left at \<open>E - 1\<close>; if \<open>E\<close> is 0, nothing has been computed and
  \<open>lastEpoch\<close> stays as it was, which is 0 on a checkpoint without progress.
\<close>

theorem insufficient_data_halts_epoch_stage:
  assumes "epochSummaries s" and "readErr env (reads w) = None"
    and "first = resumeFrom (LastEpoch (store w))"
    and "first \<le> E" and "E \<le> limitPerRun s env first summaryEpoch"
    and "\<forall>x. first \<le> x \<and> x < E \<longrightarrow> epochResult env x = (True, None)"
    and "epochResult env E = (False, None)"
  shows "\<exists>w'. summarizeEpochs s env summaryEpoch w = Some (None, w') \<and>
           newEvents w w' =
             Logged Trace ''Epochs catchup bounds''
               # map EpochSummarized (epochsFrom first (unat (E - first)))
               @ [Logged Debug ''not enough data to update summary''] \<and>
           LastEpoch (store w') = (if E = 0 then LastEpoch (store w) else E - 1)"
proof -
  let ?t = "limitPerRun s env first summaryEpoch"
  let ?w = "logged Trace ''Epochs catchup bounds'' (w\<lparr>reads := Suc (reads w)\<rparr>)"
  let ?w' = "logged Debug ''not enough data to update summary''
               (?w\<lparr>store := (if first = E then store ?w else (store w)\<lparr>LastEpoch := E - 1\<rparr>),
                   trace := trace ?w @ map EpochSummarized (epochsFrom first (unat (E - first)))\<rparr>)"
  have loop: "epochsLoop env ?t (store w) first ?w = Some (None, ?w')"
    by (rule epochsLoop_until_insufficient [OF refl assms(4,5,6,7)])
  have run: "summarizeEpochs s env summaryEpoch w = Some (None, ?w')"
    using assms(1,2,3) loop by (simp add: summarizeEpochs_def getMetadata_def Let_def)
  have ev: "newEvents w ?w' =
             Logged Trace ''Epochs catchup bounds''
               # map EpochSummarized (epochsFrom first (unat (E - first)))
               @ [Logged Debug ''not enough data to update summary'']"
    by (simp add: newEvents_def logged_def)
  have st: "LastEpoch (store ?w') = (if E = 0 then LastEpoch (store w) else E - 1)"
  proof (cases "first = E")
    case False
    moreover from False assms(4) have "E \<noteq> 0" by auto
    ultimately show ?thesis by (simp add: logged_def)
  next
    case True
    show ?thesis
    proof (cases "E = 0")
      case True
      with \<open>first = E\<close> show ?thesis by (simp add: logged_def)
    next
      case False
      with True assms(3) have "E = LastEpoch (store w) + 1"
        by (auto simp: resumeFrom_def split: if_splits)
      with True False show ?thesis by (simp add: logged_def)
    qed
  qed
  from run ev st show ?thesis by blast
qed

theorem insufficient_data_halts_epoch_stage_witness:
  "epochSummaries allStages \<and> readErr (dataUpTo 4) (reads (idleWorld freshCheckpoint)) = None \<and>
   (0::epoch) = resumeFrom (LastEpoch (store (idleWorld freshCheckpoint))) \<and>
   (0::epoch) \<le> 5 \<and> 5 \<le> limitPerRun allStages (dataUpTo 4) 0 10 \<and>
   map (epochResult (dataUpTo 4)) [0, 1, 2, 3, 4] = replicate 5 (True, None) \<and>
   epochResult (dataUpTo 4) 5 = (False, None) \<and>
   (\<exists>w'. summarizeEpochs allStages (dataUpTo 4) 10 (idleWorld freshCheckpoint) = Some (None, w') \<and>
      newEvents (idleWorld freshCheckpoint) w' =
        [Logged Trace ''Epochs catchup bounds'', EpochSummarized 0, EpochSummarized 1,
         EpochSummarized 2, EpochSummarized 3, EpochSummarized 4,
         Logged Debug ''not enough data to update summary''] \<and>
      LastEpoch (store w') = 4)"
proof -
  have h1: "epochSummaries allStages"
    and h2: "readErr (dataUpTo 4) (reads (idleWorld freshCheckpoint)) = None"
    and h3: "(0::epoch) = resumeFrom (LastEpoch (store (idleWorld freshCheckpoint)))"
    and h4: "(0::epoch) \<le> 5"
    and h5: "5 \<le> limitPerRun allStages (dataUpTo 4) 0 10"
    and h7: "epochResult (dataUpTo 4) 5 = (False, None)"
    by (simp_all add: allStages_def dataUpTo_def healthyEnv_def idleWorld_def
          freshCheckpoint_def resumeFrom_def limitPerRun_def)
  have h6: "\<forall>x. 0 \<le> x \<and> x < 5 \<longrightarrow> epochResult (dataUpTo 4) x = (True, None)"
  proof (intro allI impI)
    fix x :: epoch
    assume "0 \<le> x \<and> x < 5"
    then have "x \<le> 5 - 1" using less_imp_less_eq_dec by blast
    then show "epochResult (dataUpTo 4) x = (True, None)"
      by (simp add: dataUpTo_def healthyEnv_def)
  qed
  have five: "epochsFrom 0 (unat (5 - 0 :: epoch)) = [0, 1, 2, 3, 4]"
    by (simp add: epochsFrom_def upt_conv_Cons)
  have h8: "map (epochResult (dataUpTo 4)) [0, 1, 2, 3, 4] = replicate 5 (True, None)"
    by code_simp
  from insufficient_data_halts_epoch_stage [OF h1 h2 h3 h4 h5 h6 h7] five
    h1 h2 h3 h4 h5 h7 h8
  show ?thesis by simp
qed

text \<open>
  C6 as stated fails at \<open>E = 0\<close>: on a fresh checkpoint with no data for epoch 0 the stage
  returns success and \<open>lastEpoch\<close> is 0, which is not \<open>E - 1\<close>.
\<close>

theorem insufficient_data_at_epoch_zero:
  "epochResult noDataEnv 0 = (False, None) \<and>
   summarizeEpochs allStages noDataEnv 5 (idleWorld freshCheckpoint) =
     Some (None,
       \<lparr>store = freshCheckpoint, reads = 1, gateHeld = False,
        trace = [Logged Trace ''Epochs catchup bounds'',
                 Logged Debug ''not enough data to update summary'']\<rparr>) \<and>
   LastEpoch freshCheckpoint \<noteq> 0 - 1"
  by code_simp

section \<open>The day aggregator\<close>

lemma dayRange_unfold:
  "start < end \<Longrightarrow> dayRange start end = start # dayRange (addDays start 1) end"
  by (subst dayRange.simps) simp

lemma dayRange_empty: "\<not> start < end \<Longrightarrow> dayRange start end = []"
  by (subst dayRange.simps) simp

text \<open>
  The days of a range are the instants from \<open>start\<close> up to \<open>end\<close> exclusive that lie a
  whole number of days after \<open>start\<close>: one per calendar day when \<open>start\<close> is a midnight.
\<close>

lemma dayRange_set:
  "set (dayRange start end) = {d. start \<le> d \<and> d < end \<and> (d - start) mod nsPerDay = 0}"
proof (induction start "end" rule: dayRange.induct)
  case (1 start "end")
  show ?case
  proof (cases "start < end")
    case False
    then show ?thesis by (auto simp: dayRange_empty)
  next
    case True
    have pos: "0 < nsPerDay" by (simp add: nsPerDay_def nsPerSecond_def)
    have ih: "set (dayRange (addDays start 1) end) =
        {d. addDays start 1 \<le> d \<and> d < end \<and> (d - addDays start 1) mod nsPerDay = 0}"
      using 1 True by simp
    have "{d. start \<le> d \<and> d < end \<and> (d - start) mod nsPerDay = 0} =
          insert start {d. addDays start 1 \<le> d \<and> d < end \<and>
                           (d - addDays start 1) mod nsPerDay = 0}"
    proof (intro set_eqI iffI)
      fix d
      assume "d \<in> {d. start \<le> d \<and> d < end \<and> (d - start) mod nsPerDay = 0}"
      then have d: "start \<le> d" "d < end" "(d - start) mod nsPerDay = 0" by auto
      show "d \<in> insert start {d. addDays start 1 \<le> d \<and> d < end \<and>
                                  (d - addDays start 1) mod nsPerDay = 0}"
      proof (cases "d = start")
        case True
        then show ?thesis by simp
      next
        case False
        with d(1) have "0 < d - start" by simp
        moreover from d(3) have "nsPerDay dvd d - start" by (simp add: dvd_eq_mod_eq_0)
        ultimately have "nsPerDay \<le> d - start" by (rule zdvd_imp_le [rotated])
        moreover have "(d - start - nsPerDay) mod nsPerDay = 0"
          using d(3) by (simp add: minus_mod_self2)
        ultimately show ?thesis using d(2) by (simp add: addDays_def algebra_simps)
      qed
    next
      fix d
      assume "d \<in> insert start {d. addDays start 1 \<le> d \<and> d < end \<and>
                                    (d - addDays start 1) mod nsPerDay = 0}"
      then consider "d = start"
        | "addDays start 1 \<le> d" "d < end" "(d - addDays start 1) mod nsPerDay = 0"
        by auto
      then show "d \<in> {d. start \<le> d \<and> d < end \<and> (d - start) mod nsPerDay = 0}"
      proof cases
        case 1
        with True show ?thesis by simp
      next
        case 2
        have "(d - start) mod nsPerDay = (d - start - nsPerDay) mod nsPerDay"
          by (simp add: minus_mod_self2)
        with 2 pos show ?thesis by (simp add: addDays_def algebra_simps)
      qed
    qed
    then show ?thesis
      using True ih by (simp add: dayRange_unfold)
  qed
qed

text \<open>
  The day loop, when no day of its range fails, summarizes each day of the range once, in
  order, and leaves \<open>lastValidatorDay\<close> at the last of them.
\<close>

lemma daysLoop_all:
  assumes "\<forall>d\<in>set (dayRange timestamp endTimestamp). dayErr env d = None"
  shows "daysLoop env endTimestamp md timestamp w =
           (None,
            w\<lparr>store := (if dayRange timestamp endTimestamp = [] then store w
                          else md\<lparr>LastValidatorDay :=
                                    unixOf (last (dayRange timestamp endTimestamp))\<rparr>),
              trace := trace w @ map DaySummarized (dayRange timestamp endTimestamp)\<rparr>)"
  using assms
proof (induction env endTimestamp md timestamp w rule: daysLoop.induct)
  case (1 env endTimestamp md timestamp w)
  show ?case
  proof (cases "timestamp < endTimestamp")
    case False
    then show ?thesis
      by (subst daysLoop.simps) (simp add: dayRange_empty)
  next
    case True
    let ?rest = "dayRange (addDays timestamp 1) endTimestamp"
    let ?md = "md\<lparr>LastValidatorDay := unixOf timestamp\<rparr>"
    let ?w = "emit (DaySummarized timestamp) (w\<lparr>store := ?md\<rparr>)"
    have range: "dayRange timestamp endTimestamp = timestamp # ?rest"
      using True by (rule dayRange_unfold)
    have ok: "dayErr env timestamp = None"
      using "1.prems" range by simp
    have day: "summarizeValidatorsInDay env md timestamp w = (None, ?md, ?w)"
      using ok by (simp add: summarizeValidatorsInDay_def Let_def)
    have rest_ok: "\<forall>d\<in>set ?rest. dayErr env d = None"
      using "1.prems" range by simp
    have ih: "daysLoop env endTimestamp ?md (addDays timestamp 1) ?w =
        (None,
         ?w\<lparr>store := (if ?rest = [] then store ?w
                        else ?md\<lparr>LastValidatorDay := unixOf (last ?rest)\<rparr>),
             trace := trace ?w @ map DaySummarized ?rest\<rparr>)"
      by (rule "1.IH" [OF True day [symmetric] refl refl rest_ok])
    have unfold: "daysLoop env endTimestamp md timestamp w =
        daysLoop env endTimestamp ?md (addDays timestamp 1) ?w"
      using True day by (subst daysLoop.simps) simp
    show ?thesis
      unfolding unfold ih range by (simp add: emit_def)
  qed
qed

text \<open>
  C3, as it holds. A run of the day aggregator that reads the checkpoint and proceeds
  (the start of \<open>lastValidatorEpoch\<close> is more than a day after \<open>lastValidatorDay\<close>), and
  in which no day fails, summarizes the days from \<open>startTime\<close> inclusive up to one day
  before the start of \<open>lastValidatorEpoch\<close> exclusive, each once and in order, and leaves
  \<open>lastValidatorDay\<close> at the last of them. \<open>startTime\<close> is the UTC midnight of the genesis
  day when no day has been summarized yet, and otherwise the day after
  \<open>lastValidatorDay\<close>. The end is not rounded to a midnight.
\<close>

theorem day_aggregator_range:
  assumes "readErr env (reads w) = None"
    and "epochTime = StartOfEpoch env (LastValidatorEpoch (store w))"
    and "epochTime > addDays (timeUnix (LastValidatorDay (store w))) 1"
    and "startTime = (if LastValidatorDay (store w) = - 1 then startOfDay (GenesisTime env)
                      else addDays (timeUnix (LastValidatorDay (store w))) 1)"
    and "days = dayRange startTime (addDays epochTime (- 1))"
    and "\<forall>d\<in>set days. dayErr env d = None"
  shows "\<exists>w'. summarizeValidatorDays env w = (None, w') \<and>
           newEvents w w' = Logged Trace ''Times'' # map DaySummarized days \<and>
           set days = {d. startTime \<le> d \<and> d < addDays epochTime (- 1) \<and>
                          (d - startTime) mod nsPerDay = 0} \<and>
           LastValidatorDay (store w') =
             (if days = [] then LastValidatorDay (store w) else unixOf (last days))"
proof -
  let ?w = "logged Trace ''Times'' (w\<lparr>reads := Suc (reads w)\<rparr>)"
  let ?w' = "?w\<lparr>store := (if days = [] then store ?w
                            else (store w)\<lparr>LastValidatorDay := unixOf (last days)\<rparr>),
                 trace := trace ?w @ map DaySummarized days\<rparr>"
  have loop: "daysLoop env (addDays epochTime (- 1)) (store w) startTime ?w = (None, ?w')"
    using assms(6) unfolding assms(5) by (rule daysLoop_all)
  have run: "summarizeValidatorDays env w = (None, ?w')"
    using assms(1,3) loop
    by (simp add: summarizeValidatorDays_def getMetadata_def Let_def
          assms(2) [symmetric] assms(4) [symmetric])
  have ev: "newEvents w ?w' = Logged Trace ''Times'' # map DaySummarized days"
    by (simp add: newEvents_def logged_def)
  have st: "LastValidatorDay (store ?w') =
      (if days = [] then LastValidatorDay (store w) else unixOf (last days))"
    by (simp add: logged_def)
  have range: "set days = {d. startTime \<le> d \<and> d < addDays epochTime (- 1) \<and>
                              (d - startTime) mod nsPerDay = 0}"
    unfolding assms(5) by (rule dayRange_set)
  from run ev st range show ?thesis by blast
qed

text \<open>
  The example of the claim: genesis at 2020-12-01T12:00:00Z, \<open>lastValidatorEpoch\<close>
  starting at 2020-12-04T00:00:00Z, no day summary yet. The days 2020-12-01 and
  2020-12-02 are summarized and \<open>lastValidatorDay\<close> ends at 2020-12-02.
\<close>

theorem day_aggregator_range_witness:
  "readErr healthyEnv (reads (idleWorld (validatorsAtEpoch 10))) = None \<and>
   utcDate 2020 12 4 0 0 0 =
     StartOfEpoch healthyEnv (LastValidatorEpoch (store (idleWorld (validatorsAtEpoch 10)))) \<and>
   utcDate 2020 12 4 0 0 0 >
     addDays (timeUnix (LastValidatorDay (store (idleWorld (validatorsAtEpoch 10))))) 1 \<and>
   utcDate 2020 12 1 0 0 0 =
     (if LastValidatorDay (store (idleWorld (validatorsAtEpoch 10))) = - 1
      then startOfDay (GenesisTime healthyEnv)
      else addDays (timeUnix (LastValidatorDay (store (idleWorld (validatorsAtEpoch 10))))) 1) \<and>
   [utcDate 2020 12 1 0 0 0, utcDate 2020 12 2 0 0 0] =
     dayRange (utcDate 2020 12 1 0 0 0) (addDays (utcDate 2020 12 4 0 0 0) (- 1)) \<and>
   dayErr healthyEnv (utcDate 2020 12 1 0 0 0) = None \<and>
   dayErr healthyEnv (utcDate 2020 12 2 0 0 0) = None \<and>
   (\<exists>w'. summarizeValidatorDays healthyEnv (idleWorld (validatorsAtEpoch 10)) = (None, w') \<and>
      newEvents (idleWorld (validatorsAtEpoch 10)) w' =
        [Logged Trace ''Times'', DaySummarized (utcDate 2020 12 1 0 0 0),
         DaySummarized (utcDate 2020 12 2 0 0 0)] \<and>
      LastValidatorDay (store w') = unixOf (utcDate 2020 12 2 0 0 0))"
proof -
  have h1: "readErr healthyEnv (reads (idleWorld (validatorsAtEpoch 10))) = None"
    by (simp add: healthyEnv_def)
  have h2: "utcDate 2020 12 4 0 0 0 =
     StartOfEpoch healthyEnv (LastValidatorEpoch (store (idleWorld (validatorsAtEpoch 10))))"
    by code_simp
  have h3: "utcDate 2020 12 4 0 0 0 >
     addDays (timeUnix (LastValidatorDay (store (idleWorld (validatorsAtEpoch 10))))) 1"
    by code_simp
  have h4: "utcDate 2020 12 1 0 0 0 =
     (if LastValidatorDay (store (idleWorld (validatorsAtEpoch 10))) = - 1
      then startOfDay (GenesisTime healthyEnv)
      else addDays (timeUnix (LastValidatorDay (store (idleWorld (validatorsAtEpoch 10))))) 1)"
    by code_simp
  have h5: "[utcDate 2020 12 1 0 0 0, utcDate 2020 12 2 0 0 0] =
     dayRange (utcDate 2020 12 1 0 0 0) (addDays (utcDate 2020 12 4 0 0 0) (- 1))"
    by code_simp
  have h6: "\<forall>d\<in>set [utcDate 2020 12 1 0 0 0, utcDate 2020 12 2 0 0 0].
              dayErr healthyEnv d = None"
    by (simp add: healthyEnv_def)
  have h7: "dayErr healthyEnv (utcDate 2020 12 1 0 0 0) = None"
    and h8: "dayErr healthyEnv (utcDate 2020 12 2 0 0 0) = None"
    by (simp_all add: healthyEnv_def)
  from day_aggregator_range [OF h1 h2 h3 h4 h5 h6] h1 h2 h3 h4 h5 h7 h8
  show ?thesis by auto
qed

text \<open>
  C3 as stated fails when the start of \<open>lastValidatorEpoch\<close> is not a midnight. With that
  epoch starting at 2020-12-04T12:00:00Z the loop ends before 2020-12-03T12:00:00Z and
  summarizes three days, 2020-12-01 to 2020-12-03, where the range of the claim, which
  ends one day before the midnight of 2020-12-04, holds the first two only.
\<close>

theorem day_range_is_not_cut_at_midnight:
  "StartOfEpoch healthyEnv (LastValidatorEpoch (validatorsAtEpoch 12)) = utcDate 2020 12 4 12 0 0 \<and>
   summarizeValidatorDays healthyEnv (idleWorld (validatorsAtEpoch 12)) =
     (None,
      \<lparr>store = (validatorsAtEpoch 12)\<lparr>LastValidatorDay := unixOf (utcDate 2020 12 3 0 0 0)\<rparr>,
       reads = 1, gateHeld = False,
       trace = [Logged Trace ''Times'', DaySummarized (utcDate 2020 12 1 0 0 0),
                DaySummarized (utcDate 2020 12 2 0 0 0),
                DaySummarized (utcDate 2020 12 3 0 0 0)]\<rparr>) \<and>
   dayRange (startOfDay (GenesisTime healthyEnv))
            (claimedEndTime healthyEnv (validatorsAtEpoch 12)) =
     [utcDate 2020 12 1 0 0 0, utcDate 2020 12 2 0 0 0]"
  by code_simp

section \<open>What a pass can change\<close>

lemma daysPost_refl: "daysPost md t w w"
  unfolding daysPost_def by (simp add: exI [of _ "[]"])

lemma daysLoop_post:
  "daysPost md timestamp w (snd (daysLoop env endTimestamp md timestamp w))"
proof (induction env endTimestamp md timestamp w rule: daysLoop.induct)
  case (1 env endTimestamp md timestamp w)
  show ?case
  proof (cases "timestamp < endTimestamp \<and> dayErr env timestamp = None")
    case False
    then have "snd (daysLoop env endTimestamp md timestamp w) = w"
      by (subst daysLoop.simps)
         (auto simp: summarizeValidatorsInDay_def split: option.splits)
    then show ?thesis by (simp add: daysPost_refl)
  next
    case True
    let ?md = "md\<lparr>LastValidatorDay := unixOf timestamp\<rparr>"
    let ?w = "emit (DaySummarized timestamp) (w\<lparr>store := ?md\<rparr>)"
    let ?w' = "snd (daysLoop env endTimestamp ?md (addDays timestamp 1) ?w)"
    have day: "summarizeValidatorsInDay env md timestamp w = (None, ?md, ?w)"
      using True by (simp add: summarizeValidatorsInDay_def Let_def)
    have unfold: "daysLoop env endTimestamp md timestamp w =
        daysLoop env endTimestamp ?md (addDays timestamp 1) ?w"
      using True day by (subst daysLoop.simps) simp
    have ih: "daysPost ?md (addDays timestamp 1) ?w ?w'"
      using True by (intro "1.IH" [OF _ day [symmetric] refl refl]) simp
    from ih obtain evs where evs: "trace ?w' = trace ?w @ evs"
      "\<forall>ev\<in>set evs. \<exists>d. ev = DaySummarized d"
      unfolding daysPost_def by blast
    have tr: "trace ?w' = trace w @ (DaySummarized timestamp # evs)"
      using evs(1) by (simp add: emit_def)
    have evok: "\<forall>ev\<in>set (DaySummarized timestamp # evs). \<exists>d. ev = DaySummarized d"
      using evs(2) by simp
    have later: "timestamp \<le> addDays timestamp 1"
      by (simp add: addDays_def nsPerDay_def nsPerSecond_def)
    have st: "store ?w' = store w \<or>
        (\<exists>d. timestamp \<le> d \<and> store ?w' = md\<lparr>LastValidatorDay := unixOf d\<rparr>)"
    proof -
      from ih have "store ?w' = store ?w \<or>
          (\<exists>d. addDays timestamp 1 \<le> d \<and> store ?w' = ?md\<lparr>LastValidatorDay := unixOf d\<rparr>)"
        unfolding daysPost_def by blast
      then show ?thesis
      proof
        assume "store ?w' = store ?w"
        then have "store ?w' = md\<lparr>LastValidatorDay := unixOf timestamp\<rparr>"
          by (simp add: emit_def)
        then show ?thesis by blast
      next
        assume "\<exists>d. addDays timestamp 1 \<le> d \<and>
                  store ?w' = ?md\<lparr>LastValidatorDay := unixOf d\<rparr>"
        then obtain d where d: "addDays timestamp 1 \<le> d"
          "store ?w' = ?md\<lparr>LastValidatorDay := unixOf d\<rparr>" by blast
        have "timestamp \<le> d" using d(1) later by simp
        moreover have "store ?w' = md\<lparr>LastValidatorDay := unixOf d\<rparr>" using d(2) by simp
        ultimately show ?thesis by blast
      qed
    qed
    from ih have "reads ?w' = reads w" "gateHeld ?w' = gateHeld w"
      unfolding daysPost_def by (simp_all add: emit_def)
    with tr evok st have "daysPost md timestamp w ?w'"
      unfolding daysPost_def by blast
    then show ?thesis by (simp add: unfold)
  qed
qed

lemma unixOf_mono: "a \<le> b \<Longrightarrow> unixOf a \<le> unixOf b"
  by (simp add: unixOf_def nsPerSecond_def zdiv_mono1)

lemma unixOf_next_day: "unixOf (addDays (timeUnix x) 1) = x + 86400"
  by (simp add: unixOf_def addDays_def timeUnix_def nsPerDay_def nsPerSecond_def)

lemma unixOf_startOfDay: "0 \<le> t \<Longrightarrow> 0 \<le> unixOf (startOfDay t)"
proof -
  assume "0 \<le> t"
  then have "t mod nsPerDay \<le> t"
    by (simp add: nsPerDay_def nsPerSecond_def zmod_le_nonneg_dividend)
  then have "0 \<le> startOfDay t" by (simp add: startOfDay_def)
  then show ?thesis by (simp add: unixOf_def nsPerSecond_def pos_imp_zdiv_nonneg_iff)
qed

text \<open>
  The day aggregator leaves the permit alone, appends its log line and day summaries,
  changes no field but \<open>lastValidatorDay\<close>, and does not move that one back when the
  genesis is not before 1970.
\<close>

lemma summarizeValidatorDays_post:
  assumes "summarizeValidatorDays env w = (r, w')"
  shows "gateHeld w' = gateHeld w \<and>
    (\<exists>evs. trace w' = trace w @ evs \<and>
           (\<forall>ev\<in>set evs. ev = Logged Trace ''Times'' \<or> (\<exists>d. ev = DaySummarized d))) \<and>
    store w' = (store w)\<lparr>LastValidatorDay := LastValidatorDay (store w')\<rparr> \<and>
    (0 \<le> GenesisTime env \<longrightarrow> LastValidatorDay (store w) \<le> LastValidatorDay (store w'))"
proof (cases "readErr env (reads w)")
  case (Some err)
  then have "w' = w\<lparr>reads := Suc (reads w)\<rparr>"
    using assms by (simp add: summarizeValidatorDays_def getMetadata_def)
  then show ?thesis by (simp add: exI [of _ "[]"])
next
  case None
  let ?w = "logged Trace ''Times'' (w\<lparr>reads := Suc (reads w)\<rparr>)"
  let ?epochTime = "StartOfEpoch env (LastValidatorEpoch (store w))"
  let ?dayTime = "timeUnix (LastValidatorDay (store w))"
  let ?start = "if LastValidatorDay (store w) = - 1 then startOfDay (GenesisTime env)
                else addDays ?dayTime 1"
  show ?thesis
  proof (cases "?epochTime > addDays ?dayTime 1")
    case False
    then have "w' = ?w"
      using assms None by (simp add: summarizeValidatorDays_def getMetadata_def Let_def)
    then show ?thesis
      by (simp add: logged_def exI [of _ "[Logged Trace ''Times'']"])
  next
    case True
    have run: "daysLoop env (addDays ?epochTime (- 1)) (store w) ?start ?w = (r, w')"
      using assms None True
      by (simp add: summarizeValidatorDays_def getMetadata_def Let_def)
    have post: "daysPost (store w) ?start ?w w'"
      using daysLoop_post [of "store w" ?start ?w env "addDays ?epochTime (- 1)"] run
      by simp
    from post obtain evs where evs: "trace w' = trace ?w @ evs"
      "\<forall>ev\<in>set evs. \<exists>d. ev = DaySummarized d"
      unfolding daysPost_def by blast
    have tr: "trace w' = trace w @ (Logged Trace ''Times'' # evs)"
      using evs(1) by (simp add: logged_def)
    have evok: "\<forall>ev\<in>set (Logged Trace ''Times'' # evs).
                  ev = Logged Trace ''Times'' \<or> (\<exists>d. ev = DaySummarized d)"
      using evs(2) by simp
    have st: "store w' = store w \<or>
        (\<exists>d. ?start \<le> d \<and> store w' = (store w)\<lparr>LastValidatorDay := unixOf d\<rparr>)"
      using post unfolding daysPost_def by (simp add: logged_def)
    have own: "store w' = (store w)\<lparr>LastValidatorDay := LastValidatorDay (store w')\<rparr>"
      using st by auto
    have first: "0 \<le> GenesisTime env \<Longrightarrow> LastValidatorDay (store w) \<le> unixOf ?start"
      using unixOf_startOfDay [of "GenesisTime env"]
      by (simp add: unixOf_next_day)
    have mono: "0 \<le> GenesisTime env \<longrightarrow>
        LastValidatorDay (store w) \<le> LastValidatorDay (store w')"
    proof
      assume g: "0 \<le> GenesisTime env"
      from st show "LastValidatorDay (store w) \<le> LastValidatorDay (store w')"
      proof
        assume "store w' = store w"
        then show ?thesis by simp
      next
        assume "\<exists>d. ?start \<le> d \<and> store w' = (store w)\<lparr>LastValidatorDay := unixOf d\<rparr>"
        then obtain d where d: "?start \<le> d"
          "store w' = (store w)\<lparr>LastValidatorDay := unixOf d\<rparr>" by blast
        have "LastValidatorDay (store w) \<le> unixOf ?start" using g by (rule first)
        also have "\<dots> \<le> unixOf d" using d(1) by (rule unixOf_mono)
        finally show ?thesis using d(2) by simp
      qed
    qed
    from post have "gateHeld w' = gateHeld w"
      unfolding daysPost_def by (simp add: logged_def)
    with tr evok own mono show ?thesis by blast
  qed
qed

section \<open>The branches of the coordinator\<close>

lemma stagesPost_refl: "stagesPost w w"
  unfolding stagesPost_def by (simp add: exI [of _ "[]"])

lemma stagesPost_trans:
  assumes "stagesPost a b" and "stagesPost b c"
  shows "stagesPost a c"
proof -
  from assms(1) obtain e1 where e1: "trace b = trace a @ e1" "\<forall>ev\<in>set e1. \<not> dayOrPruneEvent ev"
    unfolding stagesPost_def by blast
  from assms(2) obtain e2 where e2: "trace c = trace b @ e2" "\<forall>ev\<in>set e2. \<not> dayOrPruneEvent ev"
    unfolding stagesPost_def by blast
  have "trace c = trace a @ (e1 @ e2)" using e1(1) e2(1) by simp
  moreover have "\<forall>ev\<in>set (e1 @ e2). \<not> dayOrPruneEvent ev" using e1(2) e2(2) by auto
  ultimately have "\<exists>evs. trace c = trace a @ evs \<and> (\<forall>ev\<in>set evs. \<not> dayOrPruneEvent ev)"
    by blast
  then show ?thesis
    using assms unfolding stagesPost_def by simp
qed

lemma stagesPost_logged:
  "\<not> dayOrPruneEvent (Logged l m) \<Longrightarrow> stagesPost w (logged l m w)"
  unfolding stagesPost_def logged_def by (simp add: exI [of _ "[Logged l m]"])

lemma stagesPost_permit: "stagesPost w (w\<lparr>gateHeld := g\<rparr>)"
  unfolding stagesPost_def by (simp add: exI [of _ "[]"])

lemma stagesPost_of_work:
  assumes "\<exists>evs. trace w' = trace w @ evs \<and> (\<forall>ev\<in>set evs. epochWorkUpTo t ev)"
    and "PeriodicValidatorRollups (store w') = PeriodicValidatorRollups (store w)"
    and "LastValidatorDay (store w') = LastValidatorDay (store w)"
  shows "stagesPost w w'"
proof -
  from assms(1) obtain evs where "trace w' = trace w @ evs" "\<forall>ev\<in>set evs. epochWorkUpTo t ev"
    by blast
  then have "trace w' = trace w @ evs \<and> (\<forall>ev\<in>set evs. \<not> dayOrPruneEvent ev)"
    using epochWork_not_dayOrPrune by blast
  then show ?thesis
    using assms(2,3) unfolding stagesPost_def by blast
qed

lemma summarizeEpochs_stagesPost:
  assumes "summarizeEpochs s env se w = Some (r, w')"
  shows "stagesPost w w'"
proof -
  note post = summarizeEpochs_post [OF assms]
  from post have st: "store w' = (store w)\<lparr>LastEpoch := LastEpoch (store w')\<rparr>" by blast
  have "PeriodicValidatorRollups (store w') = PeriodicValidatorRollups (store w)"
    and "LastValidatorDay (store w') = LastValidatorDay (store w)"
    by (subst st, simp)+
  with post show ?thesis by (intro stagesPost_of_work) blast+
qed

lemma summarizeBlocks_stagesPost:
  assumes "summarizeBlocks s env se w = Some (r, w')"
  shows "stagesPost w w'"
proof -
  note post = summarizeBlocks_post [OF assms]
  from post have st: "store w' = (store w)\<lparr>LastBlockEpoch := LastBlockEpoch (store w')\<rparr>"
    by blast
  have "PeriodicValidatorRollups (store w') = PeriodicValidatorRollups (store w)"
    and "LastValidatorDay (store w') = LastValidatorDay (store w)"
    by (subst st, simp)+
  with post show ?thesis by (intro stagesPost_of_work) blast+
qed

lemma summarizeValidators_stagesPost:
  assumes "summarizeValidators s env se w = Some (r, w')"
  shows "stagesPost w w'"
proof -
  note post = summarizeValidators_post [OF assms]
  from post have st:
    "store w' = (store w)\<lparr>LastValidatorEpoch := LastValidatorEpoch (store w')\<rparr>"
    by blast
  have "PeriodicValidatorRollups (store w') = PeriodicValidatorRollups (store w)"
    and "LastValidatorDay (store w') = LastValidatorDay (store w)"
    by (subst st, simp)+
  with post show ?thesis by (intro stagesPost_of_work) blast+
qed

text \<open>The five ways through the three epoch stages.\<close>

lemma runStages_cases:
  assumes "runStages s env finalizedEpoch w = Some (x, w')"
  obtains
    (zero) "finalizedEpoch = 0" "x = EpochZero"
      "w' = logged Debug ''Not summarizing on epoch 0'' w"
  | (epochs) err w1 where "finalizedEpoch \<noteq> 0"
      "summarizeEpochs s env (finalizedEpoch - 1) w = Some (Some err, w1)"
      "x = StageFailed" "w' = logged Warn ''Failed to update epochs'' w1"
  | (blocks) err w1 w2 where "finalizedEpoch \<noteq> 0"
      "summarizeEpochs s env (finalizedEpoch - 1) w = Some (None, w1)"
      "summarizeBlocks s env (finalizedEpoch - 1) w1 = Some (Some err, w2)"
      "x = StageFailed" "w' = logged Warn ''Failed to update blocks'' w2"
  | (validators) err w1 w2 w3 where "finalizedEpoch \<noteq> 0"
      "summarizeEpochs s env (finalizedEpoch - 1) w = Some (None, w1)"
      "summarizeBlocks s env (finalizedEpoch - 1) w1 = Some (None, w2)"
      "summarizeValidators s env (finalizedEpoch - 1) w2 = Some (Some err, w3)"
      "x = StageFailed" "w' = logged Warn ''Failed to update validators'' w3"
  | (rollups) w1 w2 w3 where "finalizedEpoch \<noteq> 0"
      "summarizeEpochs s env (finalizedEpoch - 1) w = Some (None, w1)"
      "summarizeBlocks s env (finalizedEpoch - 1) w1 = Some (None, w2)"
      "summarizeValidators s env (finalizedEpoch - 1) w2 = Some (None, w3)"
      "rollupsAndSignal env finalizedEpoch (finalizedEpoch - 1) w3 = (x, w')"
proof (cases "finalizedEpoch = 0")
  case True
  with assms zero show ?thesis by (simp add: runStages_def)
next
  case nz: False
  let ?se = "finalizedEpoch - 1"
  from assms nz obtain r1 w1 where s1: "summarizeEpochs s env ?se w = Some (r1, w1)"
    by (cases "summarizeEpochs s env ?se w") (auto simp: runStages_def Let_def)
  show ?thesis
  proof (cases r1)
    case (Some err)
    with assms nz s1 epochs show ?thesis by (simp add: runStages_def Let_def)
  next
    case n1: None
    from assms nz s1 n1 obtain r2 w2 where s2: "summarizeBlocks s env ?se w1 = Some (r2, w2)"
      by (cases "summarizeBlocks s env ?se w1") (auto simp: runStages_def Let_def)
    show ?thesis
    proof (cases r2)
      case (Some err)
      with assms nz s1 n1 s2 blocks show ?thesis by (simp add: runStages_def Let_def)
    next
      case n2: None
      from assms nz s1 n1 s2 n2 obtain r3 w3 where
        s3: "summarizeValidators s env ?se w2 = Some (r3, w3)"
        by (cases "summarizeValidators s env ?se w2") (auto simp: runStages_def Let_def)
      show ?thesis
      proof (cases r3)
        case (Some err)
        with assms nz s1 n1 s2 n2 s3 validators show ?thesis
          by (simp add: runStages_def Let_def)
      next
        case n3: None
        with assms nz s1 n1 s2 n2 s3 rollups show ?thesis
          by (simp add: runStages_def Let_def)
      qed
    qed
  qed
qed

text \<open>The read of the handler itself, and the five ways through the end of the handler.\<close>

lemma readForRollups_post:
  assumes "readForRollups env w = (w2, p)"
  shows "store w2 = store w \<and>
    (trace w2 = trace w \<and> p = Some (store w) \<or>
     trace w2 = trace w @ [Logged Error ''Failed to obtain metadata for day summarizer'']
       \<and> p = failedRead env)"
  using assms
  by (auto simp: readForRollups_def getMetadata_def recordOf_def logged_def
           split: option.splits)

lemma rollupsAndSignal_cases:
  assumes "rollupsAndSignal env finalizedEpoch summaryEpoch w = (x, w')"
  obtains
    (nil) "readForRollups env w = (w', None)" "x = NilDereference"
  | (off) w2 md where "readForRollups env w = (w2, Some md)" "\<not> PeriodicValidatorRollups md"
      "x = Finished"
      "w' = logged Trace ''Finished handling finality checkpoint''
              (monitorEpochProcessed finalizedEpoch w2)"
  | (days) w2 md err w3 where "readForRollups env w = (w2, Some md)"
      "PeriodicValidatorRollups md" "summarizeValidatorDays env w2 = (Some err, w3)"
      "x = StageFailed" "w' = logged Warn ''Failed to update validator days'' w3"
  | (pruning) w2 md w3 err w4 where "readForRollups env w = (w2, Some md)"
      "PeriodicValidatorRollups md" "summarizeValidatorDays env w2 = (None, w3)"
      "prune env summaryEpoch w3 = (Some err, w4)"
      "x = StageFailed" "w' = logged Warn ''Failed to prune summaries'' w4"
  | (finished) w2 md w3 w4 where "readForRollups env w = (w2, Some md)"
      "PeriodicValidatorRollups md" "summarizeValidatorDays env w2 = (None, w3)"
      "prune env summaryEpoch w3 = (None, w4)"
      "x = Finished"
      "w' = logged Trace ''Finished handling finality checkpoint''
              (monitorEpochProcessed finalizedEpoch w4)"
proof -
  obtain w2 p where rd: "readForRollups env w = (w2, p)"
    by (cases "readForRollups env w")
  have unfold: "rollupsAndSignal env finalizedEpoch summaryEpoch w =
      (case p of
         None \<Rightarrow> (NilDereference, w2)
       | Some md \<Rightarrow>
           if PeriodicValidatorRollups md then
             (case summarizeValidatorDays env w2 of
                (Some err, w3) \<Rightarrow>
                  (StageFailed, logged Warn ''Failed to update validator days'' w3)
              | (None, w3) \<Rightarrow>
                  (case prune env summaryEpoch w3 of
                     (Some err, w4) \<Rightarrow>
                       (StageFailed, logged Warn ''Failed to prune summaries'' w4)
                   | (None, w4) \<Rightarrow>
                       (Finished, logged Trace ''Finished handling finality checkpoint''
                                    (monitorEpochProcessed finalizedEpoch w4))))
           else (Finished, logged Trace ''Finished handling finality checkpoint''
                             (monitorEpochProcessed finalizedEpoch w2)))"
    using rd
    by (cases "getMetadata env w")
       (auto simp: rollupsAndSignal_def readForRollups_def Let_def)
  show ?thesis
  proof (cases p)
    case None
    with assms unfold rd nil show ?thesis by simp
  next
    case (Some md)
    show ?thesis
    proof (cases "PeriodicValidatorRollups md")
      case False
      with assms unfold rd Some off show ?thesis by simp
    next
      case True
      obtain r3 w3 where d: "summarizeValidatorDays env w2 = (r3, w3)"
        by (cases "summarizeValidatorDays env w2")
      show ?thesis
      proof (cases r3)
        case (Some err)
        with assms unfold rd \<open>p = Some md\<close> True d days show ?thesis by simp
      next
        case n3: None
        obtain r4 w4 where pr: "prune env summaryEpoch w3 = (r4, w4)"
          by (cases "prune env summaryEpoch w3")
        show ?thesis
        proof (cases r4)
          case (Some err)
          with assms unfold rd \<open>p = Some md\<close> True d n3 pr pruning show ?thesis by simp
        next
          case None
          with assms unfold rd \<open>p = Some md\<close> True d n3 pr finished show ?thesis by simp
        qed
      qed
    qed
  qed
qed

lemma prune_post:
  assumes "prune env summaryEpoch w = (r, w')"
  shows "store w' = store w \<and>
         (r = None \<and> w' = emit (Pruned summaryEpoch) w \<or> r \<noteq> None \<and> w' = w)"
  using assms by (auto simp: prune_def emit_def split: option.splits)

section \<open>The day aggregator and the pruner in a pass\<close>

lemma stagesPost_emit: "\<not> dayOrPruneEvent ev \<Longrightarrow> stagesPost w (emit ev w)"
  unfolding stagesPost_def emit_def by (simp add: exI [of _ "[ev]"])

lemma noPrunePost_refl: "noPrunePost w w"
  unfolding noPrunePost_def by (simp add: exI [of _ "[]"])

lemma noPrunePost_trans:
  assumes "noPrunePost a b" and "noPrunePost b c"
  shows "noPrunePost a c"
proof -
  from assms(1) obtain e1 where e1: "trace b = trace a @ e1" "\<forall>p. Pruned p \<notin> set e1"
    unfolding noPrunePost_def by blast
  from assms(2) obtain e2 where e2: "trace c = trace b @ e2" "\<forall>p. Pruned p \<notin> set e2"
    unfolding noPrunePost_def by blast
  have "trace c = trace a @ (e1 @ e2)" using e1(1) e2(1) by simp
  moreover have "\<forall>p. Pruned p \<notin> set (e1 @ e2)" using e1(2) e2(2) by auto
  ultimately show ?thesis unfolding noPrunePost_def by blast
qed

lemma noPrunePost_logged: "noPrunePost w (logged l m w)"
  unfolding noPrunePost_def logged_def by (simp add: exI [of _ "[Logged l m]"])

lemma noPrunePost_signal: "noPrunePost w (monitorEpochProcessed finalizedEpoch w)"
  unfolding noPrunePost_def monitorEpochProcessed_def emit_def
  by (simp add: exI [of _ "[EpochProcessed finalizedEpoch]"])

lemma noPrunePost_permit: "noPrunePost w (w\<lparr>gateHeld := g\<rparr>)"
  unfolding noPrunePost_def by (simp add: exI [of _ "[]"])

lemma noPrunePost_of_stages: "stagesPost w w' \<Longrightarrow> noPrunePost w w'"
  unfolding stagesPost_def noPrunePost_def by fastforce

lemma noPrunePost_days:
  assumes "summarizeValidatorDays env w = (r, w')"
  shows "noPrunePost w w'"
proof -
  from summarizeValidatorDays_post [OF assms] obtain evs where
    "trace w' = trace w @ evs"
    "\<forall>ev\<in>set evs. ev = Logged Trace ''Times'' \<or> (\<exists>d. ev = DaySummarized d)"
    by blast
  then have "trace w' = trace w @ evs \<and> (\<forall>p. Pruned p \<notin> set evs)" by auto
  then show ?thesis unfolding noPrunePost_def by blast
qed

lemma noPrunePost_read:
  assumes "readForRollups env w = (w2, p)"
  shows "noPrunePost w w2"
  using readForRollups_post [OF assms] unfolding noPrunePost_def by auto

lemma noPrunePost_newEvents:
  "noPrunePost w w' \<Longrightarrow> Pruned p \<notin> set (newEvents w w')"
  unfolding noPrunePost_def newEvents_def by auto

lemma stagesPost_newEvents:
  "stagesPost w w' \<Longrightarrow> \<forall>ev\<in>set (newEvents w w'). \<not> dayOrPruneEvent ev"
  unfolding stagesPost_def newEvents_def by auto

text \<open>The three epoch stages, up to the end of the handler or to a failure.\<close>

lemma runStages_stagesPost:
  assumes "runStages s env finalizedEpoch w = Some (x, w')"
  shows "stagesPost w w' \<or>
         (\<exists>w3. stagesPost w w3 \<and>
               rollupsAndSignal env finalizedEpoch (finalizedEpoch - 1) w3 = (x, w'))"
  using assms
proof (cases rule: runStages_cases)
  case zero
  then show ?thesis by (simp add: stagesPost_logged)
next
  case (epochs err w1)
  have "stagesPost w w1" using epochs(2) by (rule summarizeEpochs_stagesPost)
  moreover have "stagesPost w1 w'" unfolding epochs(4) by (simp add: stagesPost_logged)
  ultimately show ?thesis using stagesPost_trans by blast
next
  case (blocks err w1 w2)
  have "stagesPost w w1" using blocks(2) by (rule summarizeEpochs_stagesPost)
  moreover have "stagesPost w1 w2" using blocks(3) by (rule summarizeBlocks_stagesPost)
  moreover have "stagesPost w2 w'" unfolding blocks(5) by (simp add: stagesPost_logged)
  ultimately show ?thesis using stagesPost_trans by blast
next
  case (validators err w1 w2 w3)
  have "stagesPost w w1" using validators(2) by (rule summarizeEpochs_stagesPost)
  moreover have "stagesPost w1 w2" using validators(3) by (rule summarizeBlocks_stagesPost)
  moreover have "stagesPost w2 w3"
    using validators(4) by (rule summarizeValidators_stagesPost)
  moreover have "stagesPost w3 w'" unfolding validators(6) by (simp add: stagesPost_logged)
  ultimately show ?thesis using stagesPost_trans by blast
next
  case (rollups w1 w2 w3)
  have "stagesPost w w1" using rollups(2) by (rule summarizeEpochs_stagesPost)
  moreover have "stagesPost w1 w2" using rollups(3) by (rule summarizeBlocks_stagesPost)
  moreover have "stagesPost w2 w3" using rollups(4) by (rule summarizeValidators_stagesPost)
  ultimately have "stagesPost w w3" using stagesPost_trans by blast
  with rollups(5) show ?thesis by blast
qed

text \<open>With the flag unset, the end of the handler runs neither of the two.\<close>

lemma rollupsAndSignal_without_flag:
  assumes "rollupsAndSignal env finalizedEpoch summaryEpoch w = (x, w')"
    and "\<not> PeriodicValidatorRollups (store w)"
    and "\<forall>md. failedRead env = Some md \<longrightarrow> \<not> PeriodicValidatorRollups md"
  shows "stagesPost w w'"
proof -
  have read: "stagesPost w w2 \<and> (p = Some md \<longrightarrow> \<not> PeriodicValidatorRollups md)"
    if "readForRollups env w = (w2, p)" for w2 p md
  proof -
    from readForRollups_post [OF that] have st: "store w2 = store w"
      and tr: "trace w2 = trace w \<and> p = Some (store w) \<or>
         trace w2 = trace w @ [Logged Error ''Failed to obtain metadata for day summarizer'']
           \<and> p = failedRead env"
      by blast+
    have "\<exists>evs. trace w2 = trace w @ evs \<and> (\<forall>ev\<in>set evs. \<not> dayOrPruneEvent ev)"
    proof (cases "trace w2 = trace w")
      case True
      then show ?thesis by (simp add: exI [of _ "[]"])
    next
      case False
      with tr have
        "trace w2 = trace w @ [Logged Error ''Failed to obtain metadata for day summarizer'']"
        by blast
      then show ?thesis
        by (simp add: exI [of _ "[Logged Error ''Failed to obtain metadata for day summarizer'']"])
    qed
    then have "stagesPost w w2" using st unfolding stagesPost_def by simp
    moreover have "p = Some md \<longrightarrow> \<not> PeriodicValidatorRollups md"
      using tr assms(2,3) by auto
    ultimately show ?thesis by blast
  qed
  from assms(1) show ?thesis
  proof (cases rule: rollupsAndSignal_cases)
    case nil
    then show ?thesis using read by blast
  next
    case (off w2 md)
    have "stagesPost w w2" using read [OF off(1)] by blast
    moreover have "stagesPost w2 (monitorEpochProcessed finalizedEpoch w2)"
      unfolding monitorEpochProcessed_def by (simp add: stagesPost_emit)
    moreover have "stagesPost (monitorEpochProcessed finalizedEpoch w2) w'"
      unfolding off(4) by (simp add: stagesPost_logged)
    ultimately show ?thesis using stagesPost_trans by blast
  next
    case (days w2 md err w3)
    with read [OF days(1)] show ?thesis by blast
  next
    case (pruning w2 md w3 err w4)
    with read [OF pruning(1)] show ?thesis by blast
  next
    case (finished w2 md w3 w4)
    with read [OF finished(1)] show ?thesis by blast
  qed
qed

text \<open>A pruner event at the end of the handler comes right after a day aggregator pass
  that returned without error.\<close>

lemma rollupsAndSignal_prune:
  assumes "rollupsAndSignal env finalizedEpoch summaryEpoch w = (x, w')"
  shows "noPrunePost w w' \<or>
    (\<exists>w1 w2. noPrunePost w w1 \<and> summarizeValidatorDays env w1 = (None, w2) \<and>
       trace w' = trace w2 @ [Pruned summaryEpoch, EpochProcessed finalizedEpoch,
                              Logged Trace ''Finished handling finality checkpoint''])"
  using assms
proof (cases rule: rollupsAndSignal_cases)
  case nil
  then show ?thesis using noPrunePost_read by blast
next
  case (off w2 md)
  have "noPrunePost w w2" using off(1) by (rule noPrunePost_read)
  moreover have "noPrunePost w2 (monitorEpochProcessed finalizedEpoch w2)"
    by (rule noPrunePost_signal)
  moreover have "noPrunePost (monitorEpochProcessed finalizedEpoch w2) w'"
    unfolding off(4) by (rule noPrunePost_logged)
  ultimately show ?thesis using noPrunePost_trans by blast
next
  case (days w2 md err w3)
  have "noPrunePost w w2" using days(1) by (rule noPrunePost_read)
  moreover have "noPrunePost w2 w3" using days(3) by (rule noPrunePost_days)
  moreover have "noPrunePost w3 w'" unfolding days(5) by (rule noPrunePost_logged)
  ultimately show ?thesis using noPrunePost_trans by blast
next
  case (pruning w2 md w3 err w4)
  have "noPrunePost w w2" using pruning(1) by (rule noPrunePost_read)
  moreover have "noPrunePost w2 w3" using pruning(3) by (rule noPrunePost_days)
  moreover have "w4 = w3" using prune_post [OF pruning(4)] by auto
  moreover have "noPrunePost w4 w'" unfolding pruning(6) by (rule noPrunePost_logged)
  ultimately show ?thesis using noPrunePost_trans by blast
next
  case (finished w2 md w3 w4)
  have "noPrunePost w w2" using finished(1) by (rule noPrunePost_read)
  moreover have "w4 = emit (Pruned summaryEpoch) w3"
    using prune_post [OF finished(4)] by auto
  then have "trace w' = trace w3 @ [Pruned summaryEpoch, EpochProcessed finalizedEpoch,
                              Logged Trace ''Finished handling finality checkpoint'']"
    unfolding finished(6) by (simp add: logged_def monitorEpochProcessed_def emit_def)
  ultimately show ?thesis using finished(3) by blast
qed

text \<open>The same for the whole handler.\<close>

lemma OnFinalityUpdated_cases:
  assumes "OnFinalityUpdated s env finalizedEpoch w = Some (x, w')"
  obtains
    (busy) "gateHeld w" "x = GateBusy"
      "w' = logged Debug ''Another handler running'' (logged Trace ''Handler called'' w)"
  | (ran) w'' where "\<not> gateHeld w"
      "runStages s env finalizedEpoch ((logged Trace ''Handler called'' w)\<lparr>gateHeld := True\<rparr>)
         = Some (x, w'')"
      "w' = w''\<lparr>gateHeld := False\<rparr>"
proof (cases "gateHeld w")
  case True
  with assms busy show ?thesis
    by (simp add: OnFinalityUpdated_def Let_def logged_def)
next
  case False
  let ?w = "(logged Trace ''Handler called'' w)\<lparr>gateHeld := True\<rparr>"
  from assms False obtain y where y: "runStages s env finalizedEpoch ?w = Some y"
    by (cases "runStages s env finalizedEpoch ?w")
       (auto simp: OnFinalityUpdated_def Let_def logged_def)
  obtain x' w'' where "y = (x', w'')" by (cases y)
  with assms False y ran show ?thesis
    by (auto simp: OnFinalityUpdated_def Let_def logged_def)
qed

lemma pass_without_flag:
  assumes "OnFinalityUpdated s env finalizedEpoch w = Some (x, w')"
    and "\<not> PeriodicValidatorRollups (store w)"
    and "\<forall>md. failedRead env = Some md \<longrightarrow> \<not> PeriodicValidatorRollups md"
  shows "stagesPost w w'"
  using assms(1)
proof (cases rule: OnFinalityUpdated_cases)
  case busy
  have "stagesPost w (logged Trace ''Handler called'' w)" by (simp add: stagesPost_logged)
  moreover have "stagesPost (logged Trace ''Handler called'' w) w'"
    unfolding busy(3) by (simp add: stagesPost_logged)
  ultimately show ?thesis by (rule stagesPost_trans)
next
  case (ran w'')
  let ?called = "logged Trace ''Handler called'' w"
  let ?w = "?called\<lparr>gateHeld := True\<rparr>"
  have start: "stagesPost w ?w"
    by (rule stagesPost_trans [where b = ?called]) (simp_all add: stagesPost_logged stagesPost_permit)
  have "stagesPost ?w w''"
  proof -
    from runStages_stagesPost [OF ran(2)] show ?thesis
    proof
      assume "stagesPost ?w w''"
      then show ?thesis .
    next
      assume "\<exists>w3. stagesPost ?w w3 \<and>
                rollupsAndSignal env finalizedEpoch (finalizedEpoch - 1) w3 = (x, w'')"
      then obtain w3 where w3: "stagesPost ?w w3"
        "rollupsAndSignal env finalizedEpoch (finalizedEpoch - 1) w3 = (x, w'')" by blast
      have "stagesPost w w3" using start w3(1) by (rule stagesPost_trans)
      then have "\<not> PeriodicValidatorRollups (store w3)"
        using assms(2) unfolding stagesPost_def by simp
      then have "stagesPost w3 w''"
        using w3(2) assms(3) by (intro rollupsAndSignal_without_flag) auto
      with w3(1) show ?thesis by (rule stagesPost_trans)
    qed
  qed
  moreover have "stagesPost w'' w'" unfolding ran(3) by (rule stagesPost_permit)
  ultimately show ?thesis using start stagesPost_trans by blast
qed

lemma pass_prune:
  assumes "OnFinalityUpdated s env finalizedEpoch w = Some (x, w')"
  shows "noPrunePost w w' \<or>
    (\<exists>w1 w2. noPrunePost w w1 \<and> summarizeValidatorDays env w1 = (None, w2) \<and>
       trace w' = trace w2 @ [Pruned (finalizedEpoch - 1), EpochProcessed finalizedEpoch,
                              Logged Trace ''Finished handling finality checkpoint''])"
  using assms
proof (cases rule: OnFinalityUpdated_cases)
  case busy
  have "noPrunePost w (logged Trace ''Handler called'' w)" by (rule noPrunePost_logged)
  moreover have "noPrunePost (logged Trace ''Handler called'' w) w'"
    unfolding busy(3) by (rule noPrunePost_logged)
  ultimately show ?thesis using noPrunePost_trans by blast
next
  case (ran w'')
  let ?called = "logged Trace ''Handler called'' w"
  let ?w = "?called\<lparr>gateHeld := True\<rparr>"
  have start: "noPrunePost w ?w"
    by (rule noPrunePost_trans [where b = ?called]) (rule noPrunePost_logged noPrunePost_permit)+
  have fin: "noPrunePost w'' w'" unfolding ran(3) by (rule noPrunePost_permit)
  have same: "trace w' = trace w''" unfolding ran(3) by simp
  from runStages_stagesPost [OF ran(2)] show ?thesis
  proof
    assume "stagesPost ?w w''"
    then have "noPrunePost ?w w''" by (rule noPrunePost_of_stages)
    with start fin show ?thesis using noPrunePost_trans by blast
  next
    assume "\<exists>w3. stagesPost ?w w3 \<and>
              rollupsAndSignal env finalizedEpoch (finalizedEpoch - 1) w3 = (x, w'')"
    then obtain w3 where w3: "stagesPost ?w w3"
      "rollupsAndSignal env finalizedEpoch (finalizedEpoch - 1) w3 = (x, w'')" by blast
    have upto: "noPrunePost w w3"
      using start noPrunePost_of_stages [OF w3(1)] by (rule noPrunePost_trans)
    from rollupsAndSignal_prune [OF w3(2)] show ?thesis
    proof
      assume "noPrunePost w3 w''"
      with upto fin show ?thesis using noPrunePost_trans by blast
    next
      assume "\<exists>w1 w2. noPrunePost w3 w1 \<and> summarizeValidatorDays env w1 = (None, w2) \<and>
         trace w'' = trace w2 @ [Pruned (finalizedEpoch - 1), EpochProcessed finalizedEpoch,
                                 Logged Trace ''Finished handling finality checkpoint'']"
      then obtain w1 w2 where a: "noPrunePost w3 w1"
        "summarizeValidatorDays env w1 = (None, w2)"
        "trace w'' = trace w2 @ [Pruned (finalizedEpoch - 1), EpochProcessed finalizedEpoch,
                                 Logged Trace ''Finished handling finality checkpoint'']"
        by blast
      have "noPrunePost w w1" using upto a(1) by (rule noPrunePost_trans)
      with a(2,3) same show ?thesis by auto
    qed
  qed
qed

text \<open>
  C8. In a call of the handler on a checkpoint whose rollup flag is unset, nothing the
  call appends to the trace is an event of the day aggregator or of the pruner: neither
  has run. (When the read of the checkpoint fails and hands back a record, the flag is to
  be unset on that record as well.) And in every call, whatever the flag, a pruner event
  \<open>Pruned e\<close> among the events of the call comes right after the trace of a day aggregator
  pass that started within this call and returned without error.
\<close>

theorem rollups_need_flag_and_pruner_follows_days:
  "(OnFinalityUpdated s env finalizedEpoch w = Some (x, w') \<and>
    \<not> PeriodicValidatorRollups (store w) \<and>
    (\<forall>md. failedRead env = Some md \<longrightarrow> \<not> PeriodicValidatorRollups md) \<longrightarrow>
      (\<forall>ev\<in>set (newEvents w w'). \<not> dayOrPruneEvent ev)) \<and>
   (OnFinalityUpdated s' env' finalizedEpoch' v = Some (y, v') \<and>
    Pruned e \<in> set (newEvents v v') \<longrightarrow>
      (\<exists>w1 w2 evs rest.
         summarizeValidatorDays env' w1 = (None, w2) \<and>
         trace w1 = trace v @ evs \<and> (\<forall>p. Pruned p \<notin> set evs) \<and>
         trace v' = trace w2 @ Pruned e # rest))"
proof (intro conjI impI)
  assume "OnFinalityUpdated s env finalizedEpoch w = Some (x, w') \<and>
    \<not> PeriodicValidatorRollups (store w) \<and>
    (\<forall>md. failedRead env = Some md \<longrightarrow> \<not> PeriodicValidatorRollups md)"
  then have "stagesPost w w'" using pass_without_flag by blast
  then show "\<forall>ev\<in>set (newEvents w w'). \<not> dayOrPruneEvent ev"
    by (rule stagesPost_newEvents)
next
  assume a: "OnFinalityUpdated s' env' finalizedEpoch' v = Some (y, v') \<and>
    Pruned e \<in> set (newEvents v v')"
  then have run: "OnFinalityUpdated s' env' finalizedEpoch' v = Some (y, v')"
    and pr: "Pruned e \<in> set (newEvents v v')" by blast+
  from pass_prune [OF run] pr noPrunePost_newEvents
  obtain w1 w2 where b: "noPrunePost v w1" "summarizeValidatorDays env' w1 = (None, w2)"
    "trace v' = trace w2 @ [Pruned (finalizedEpoch' - 1), EpochProcessed finalizedEpoch',
                            Logged Trace ''Finished handling finality checkpoint'']"
    by blast
  from b(1) obtain evs where evs: "trace w1 = trace v @ evs" "\<forall>p. Pruned p \<notin> set evs"
    unfolding noPrunePost_def by blast
  from noPrunePost_days [OF b(2)] obtain devs where devs: "trace w2 = trace w1 @ devs"
    "\<forall>p. Pruned p \<notin> set devs"
    unfolding noPrunePost_def by blast
  have "newEvents v v' = evs @ devs @ [Pruned (finalizedEpoch' - 1),
          EpochProcessed finalizedEpoch',
          Logged Trace ''Finished handling finality checkpoint'']"
    using b(3) evs(1) devs(1) by (simp add: newEvents_def)
  with pr evs(2) devs(2) have "e = finalizedEpoch' - 1" by auto
  with b(2,3) evs show "\<exists>w1 w2 evs rest.
         summarizeValidatorDays env' w1 = (None, w2) \<and>
         trace w1 = trace v @ evs \<and> (\<forall>p. Pruned p \<notin> set evs) \<and>
         trace v' = trace w2 @ Pruned e # rest"
    by blast
qed

theorem rollups_need_flag_and_pruner_follows_days_witness:
  "OnFinalityUpdated allStages healthyEnv 1 (idleWorld freshCheckpoint)
     = Some (Finished, afterQuietPass) \<and>
   \<not> PeriodicValidatorRollups (store (idleWorld freshCheckpoint)) \<and>
   failedRead healthyEnv = None \<and>
   list_all (\<lambda>ev. \<not> dayOrPruneEvent ev)
     (newEvents (idleWorld freshCheckpoint) afterQuietPass) \<and>
   OnFinalityUpdated allStages healthyEnv 1 (idleWorld rollupCheckpoint)
     = Some (Finished, afterRollupPass) \<and>
   Pruned 0 \<in> set (newEvents (idleWorld rollupCheckpoint) afterRollupPass) \<and>
   (\<exists>w1 w2 evs rest.
      summarizeValidatorDays healthyEnv w1 = (None, w2) \<and>
      trace w1 = trace (idleWorld rollupCheckpoint) @ evs \<and> (\<forall>p. Pruned p \<notin> set evs) \<and>
      trace afterRollupPass = trace w2 @ Pruned 0 # rest)"
proof -
  have q1: "OnFinalityUpdated allStages healthyEnv 1 (idleWorld freshCheckpoint)
              = Some (Finished, afterQuietPass)"
    by code_simp
  have q2: "\<not> PeriodicValidatorRollups (store (idleWorld freshCheckpoint))"
    by (simp add: idleWorld_def freshCheckpoint_def)
  have q3: "\<forall>md. failedRead healthyEnv = Some md \<longrightarrow> \<not> PeriodicValidatorRollups md"
    by (simp add: healthyEnv_def)
  have r1: "OnFinalityUpdated allStages healthyEnv 1 (idleWorld rollupCheckpoint)
              = Some (Finished, afterRollupPass)"
    by code_simp
  have r2: "Pruned 0 \<in> set (newEvents (idleWorld rollupCheckpoint) afterRollupPass)"
    by (simp add: newEvents_def idleWorld_def afterRollupPass_def)
  note inst = rollups_need_flag_and_pruner_follows_days
    [where s = allStages and env = healthyEnv and finalizedEpoch = 1
       and w = "idleWorld freshCheckpoint" and x = Finished and w' = afterQuietPass
       and s' = allStages and env' = healthyEnv and finalizedEpoch' = 1
       and v = "idleWorld rollupCheckpoint" and y = Finished and v' = afterRollupPass
       and e = 0]
  from inst q1 q2 q3
  have a: "\<forall>ev\<in>set (newEvents (idleWorld freshCheckpoint) afterQuietPass).
             \<not> dayOrPruneEvent ev"
    by blast
  from inst r1 r2
  have b: "\<exists>w1 w2 evs rest.
      summarizeValidatorDays healthyEnv w1 = (None, w2) \<and>
      trace w1 = trace (idleWorld rollupCheckpoint) @ evs \<and> (\<forall>p. Pruned p \<notin> set evs) \<and>
      trace afterRollupPass = trace w2 @ Pruned 0 # rest"
    by blast
  have q4: "failedRead healthyEnv = None"
    by (simp add: healthyEnv_def)
  from a have c: "list_all (\<lambda>ev. \<not> dayOrPruneEvent ev)
                    (newEvents (idleWorld freshCheckpoint) afterQuietPass)"
    by (simp add: list_all_iff)
  from q1 q2 q4 c r1 r2 b show ?thesis by blast
qed

section \<open>The gate\<close>



















section \<open>The ceiling of the block and the validator stage\<close>

lemma truncateToLastEpoch_min:
  "LastEpoch md \<noteq> 0 \<Longrightarrow> truncateToLastEpoch md summaryEpoch = min summaryEpoch (LastEpoch md)"
  by (auto simp: truncateToLastEpoch_def min_def)

text \<open>When the first epoch is not beyond the target, the limit per run does not raise it.\<close>

lemma limitPerRun_le:
  assumes "first \<le> summaryEpoch"
  shows "limitPerRun s env first summaryEpoch \<le> summaryEpoch"
proof (cases "validatorEpochRetention s \<noteq> None \<and> maxEpochsPerRun s env > 0
                \<and> summaryEpoch - first > maxEpochsPerRun s env")
  case False
  then show ?thesis by (auto simp: limitPerRun_def)
next
  case True
  let ?m = "maxEpochsPerRun s env"
  have sub: "unat (summaryEpoch - first) = unat summaryEpoch - unat first"
    using assms by (simp add: unat_sub)
  have "unat ?m < unat summaryEpoch - unat first"
    using True sub by (simp add: word_less_nat_alt)
  then have small: "unat first + unat ?m < unat summaryEpoch" by simp
  have "unat summaryEpoch < 2 ^ 64"
    using unsigned_less [of summaryEpoch, where 'a = nat] by simp
  with small have "unat first + unat ?m < 2 ^ 64" by simp
  then have "unat (first + ?m) = unat first + unat ?m"
    by (simp add: unat_word_ariths)
  with small have "first + ?m \<le> summaryEpoch" by (simp add: word_le_nat_alt)
  with True show ?thesis by (simp add: limitPerRun_def)
qed

lemma limitPerRun_off:
  "validatorEpochRetention s = None \<or> maxEpochsPerRun s env = 0 \<Longrightarrow>
   limitPerRun s env first summaryEpoch = summaryEpoch"
  by (auto simp: limitPerRun_def)

lemma epochWorkUpTo_mono: "t \<le> t' \<Longrightarrow> epochWorkUpTo t ev \<Longrightarrow> epochWorkUpTo t' ev"
  by (cases ev) simp_all

lemma list_all_newEvents:
  assumes "\<exists>evs. trace w' = trace w @ evs \<and> (\<forall>ev\<in>set evs. epochWorkUpTo t ev)"
    and "t \<le> t'"
  shows "list_all (epochWorkUpTo t') (newEvents w w')"
proof -
  from assms(1) obtain evs where evs: "trace w' = trace w @ evs"
    "\<forall>ev\<in>set evs. epochWorkUpTo t ev" by blast
  have "newEvents w w' = evs" using evs(1) by (simp add: newEvents_def)
  moreover have "\<forall>ev\<in>set evs. epochWorkUpTo t' ev"
    using evs(2) assms(2) epochWorkUpTo_mono by blast
  ultimately show ?thesis by (simp add: list_all_iff)
qed

text \<open>
  C4, as it holds. When \<open>lastEpoch\<close> is not 0 as the block stage reads the checkpoint,
  everything the stage does is epoch work no later than \<open>min(summaryEpoch, lastEpoch)\<close>:
  it summarizes no epoch beyond that ceiling, it leaves \<open>lastEpoch\<close> alone, and
  \<open>lastBlockEpoch\<close> ends no higher than the larger of its previous value and the
  ceiling, so \<open>lastBlockEpoch \<le> lastEpoch\<close> still holds after the stage if it held
  before. The same holds of the validator stage and \<open>lastValidatorEpoch\<close> when the limit
  per run is not in force (no retention policy, or no positive maximum) or the first
  epoch of the stage is not beyond the ceiling.
\<close>

theorem ceiling_of_block_and_validator_stage:
  "(summarizeBlocks s env summaryEpoch w = Some (r, w') \<and> LastEpoch (store w) \<noteq> 0 \<longrightarrow>
      list_all (epochWorkUpTo (min summaryEpoch (LastEpoch (store w)))) (newEvents w w') \<and>
      LastEpoch (store w') = LastEpoch (store w) \<and>
      LastBlockEpoch (store w')
        \<le> max (LastBlockEpoch (store w)) (min summaryEpoch (LastEpoch (store w)))) \<and>
   (summarizeValidators s env summaryEpoch v = Some (q, v') \<and> LastEpoch (store v) \<noteq> 0 \<and>
    (validatorEpochRetention s = None \<or> maxEpochsPerRun s env = 0 \<or>
     resumeFrom (LastValidatorEpoch (store v)) \<le> min summaryEpoch (LastEpoch (store v))) \<longrightarrow>
      list_all (epochWorkUpTo (min summaryEpoch (LastEpoch (store v)))) (newEvents v v') \<and>
      LastEpoch (store v') = LastEpoch (store v) \<and>
      LastValidatorEpoch (store v')
        \<le> max (LastValidatorEpoch (store v)) (min summaryEpoch (LastEpoch (store v))))"
proof (intro conjI impI)
  assume a: "summarizeBlocks s env summaryEpoch w = Some (r, w') \<and> LastEpoch (store w) \<noteq> 0"
  let ?c = "min summaryEpoch (LastEpoch (store w))"
  have t: "truncateToLastEpoch (store w) summaryEpoch = ?c"
    using a by (simp add: truncateToLastEpoch_min)
  note post = summarizeBlocks_post [of s env summaryEpoch w r w', unfolded t]
  from a post have ev: "\<exists>evs. trace w' = trace w @ evs \<and> (\<forall>ev\<in>set evs. epochWorkUpTo ?c ev)"
    and st: "store w' = (store w)\<lparr>LastBlockEpoch := LastBlockEpoch (store w')\<rparr>"
    and bd: "LastBlockEpoch (store w') = LastBlockEpoch (store w) \<or>
             LastBlockEpoch (store w') \<le> ?c"
    by blast+
  show "list_all (epochWorkUpTo ?c) (newEvents w w')"
    using ev by (rule list_all_newEvents) simp
  show "LastEpoch (store w') = LastEpoch (store w)"
    by (subst st) simp
  show "LastBlockEpoch (store w') \<le> max (LastBlockEpoch (store w)) ?c"
    using bd by (auto simp: max_def)
next
  assume a: "summarizeValidators s env summaryEpoch v = Some (q, v') \<and>
    LastEpoch (store v) \<noteq> 0 \<and>
    (validatorEpochRetention s = None \<or> maxEpochsPerRun s env = 0 \<or>
     resumeFrom (LastValidatorEpoch (store v)) \<le> min summaryEpoch (LastEpoch (store v)))"
  let ?c = "min summaryEpoch (LastEpoch (store v))"
  let ?t = "limitPerRun s env (resumeFrom (LastValidatorEpoch (store v))) ?c"
  have t: "truncateToLastEpoch (store v) summaryEpoch = ?c"
    using a by (simp add: truncateToLastEpoch_min)
  have le: "?t \<le> ?c"
  proof (cases "validatorEpochRetention s = None \<or> maxEpochsPerRun s env = 0")
    case True
    then show ?thesis by (simp add: limitPerRun_off)
  next
    case False
    with a have "resumeFrom (LastValidatorEpoch (store v)) \<le> ?c" by blast
    then show ?thesis by (rule limitPerRun_le)
  qed
  note post = summarizeValidators_post [of s env summaryEpoch v q v', unfolded t]
  from a post have ev: "\<exists>evs. trace v' = trace v @ evs \<and> (\<forall>ev\<in>set evs. epochWorkUpTo ?t ev)"
    and st: "store v' = (store v)\<lparr>LastValidatorEpoch := LastValidatorEpoch (store v')\<rparr>"
    and bd: "LastValidatorEpoch (store v') = LastValidatorEpoch (store v) \<or>
             LastValidatorEpoch (store v') \<le> ?t"
    by blast+
  show "list_all (epochWorkUpTo ?c) (newEvents v v')"
    using ev le by (rule list_all_newEvents)
  show "LastEpoch (store v') = LastEpoch (store v)"
    by (subst st) simp
  show "LastValidatorEpoch (store v') \<le> max (LastValidatorEpoch (store v)) ?c"
    using bd le by (auto simp: max_def)
qed

theorem ceiling_of_block_and_validator_stage_witness:
  "summarizeBlocks allStages healthyEnv 10 (idleWorld (epochsAtEpoch 3)) =
     Some (None,
       \<lparr>store = (epochsAtEpoch 3)\<lparr>LastBlockEpoch := 3\<rparr>, reads = 1, gateHeld = False,
        trace = [Logged Trace ''Blocks catchup bounds'', BlocksSummarized 0,
                 BlocksSummarized 1, BlocksSummarized 2, BlocksSummarized 3]\<rparr>) \<and>
   LastEpoch (store (idleWorld (epochsAtEpoch 3))) \<noteq> 0 \<and>
   summarizeValidators allStages healthyEnv 10 (idleWorld (epochsAtEpoch 3)) =
     Some (None,
       \<lparr>store = (epochsAtEpoch 3)\<lparr>LastValidatorEpoch := 3\<rparr>, reads = 1, gateHeld = False,
        trace = [Logged Trace ''Validators catchup bounds'', ValidatorsSummarized 0,
                 ValidatorsSummarized 1, ValidatorsSummarized 2,
                 ValidatorsSummarized 3]\<rparr>) \<and>
   validatorEpochRetention allStages = None \<and>
   LastBlockEpoch ((epochsAtEpoch 3)\<lparr>LastBlockEpoch := 3\<rparr>)
     \<le> max (LastBlockEpoch (store (idleWorld (epochsAtEpoch 3))))
           (min 10 (LastEpoch (store (idleWorld (epochsAtEpoch 3))))) \<and>
   LastValidatorEpoch ((epochsAtEpoch 3)\<lparr>LastValidatorEpoch := 3\<rparr>)
     \<le> max (LastValidatorEpoch (store (idleWorld (epochsAtEpoch 3))))
           (min 10 (LastEpoch (store (idleWorld (epochsAtEpoch 3)))))"
proof -
  have b: "summarizeBlocks allStages healthyEnv 10 (idleWorld (epochsAtEpoch 3)) =
     Some (None,
       \<lparr>store = (epochsAtEpoch 3)\<lparr>LastBlockEpoch := 3\<rparr>, reads = 1, gateHeld = False,
        trace = [Logged Trace ''Blocks catchup bounds'', BlocksSummarized 0,
                 BlocksSummarized 1, BlocksSummarized 2, BlocksSummarized 3]\<rparr>)"
    by code_simp
  have v: "summarizeValidators allStages healthyEnv 10 (idleWorld (epochsAtEpoch 3)) =
     Some (None,
       \<lparr>store = (epochsAtEpoch 3)\<lparr>LastValidatorEpoch := 3\<rparr>, reads = 1, gateHeld = False,
        trace = [Logged Trace ''Validators catchup bounds'', ValidatorsSummarized 0,
                 ValidatorsSummarized 1, ValidatorsSummarized 2,
                 ValidatorsSummarized 3]\<rparr>)"
    by code_simp
  have nz: "LastEpoch (store (idleWorld (epochsAtEpoch 3))) \<noteq> 0"
    by (simp add: idleWorld_def epochsAtEpoch_def)
  have off: "validatorEpochRetention allStages = None"
    by (simp add: allStages_def)
  note inst = ceiling_of_block_and_validator_stage
    [where s = allStages and env = healthyEnv and summaryEpoch = 10
       and w = "idleWorld (epochsAtEpoch 3)" and v = "idleWorld (epochsAtEpoch 3)"
       and r = None and q = None
       and w' = "\<lparr>store = (epochsAtEpoch 3)\<lparr>LastBlockEpoch := 3\<rparr>, reads = 1,
                  gateHeld = False,
                  trace = [Logged Trace ''Blocks catchup bounds'', BlocksSummarized 0,
                           BlocksSummarized 1, BlocksSummarized 2, BlocksSummarized 3]\<rparr>"
       and v' = "\<lparr>store = (epochsAtEpoch 3)\<lparr>LastValidatorEpoch := 3\<rparr>, reads = 1,
                  gateHeld = False,
                  trace = [Logged Trace ''Validators catchup bounds'', ValidatorsSummarized 0,
                           ValidatorsSummarized 1, ValidatorsSummarized 2,
                           ValidatorsSummarized 3]\<rparr>"]
  from inst b v nz off show ?thesis by simp
qed

text \<open>
  C4 as stated fails after passes that ran without a ceiling. From the fresh checkpoint,
  a first pass for finalized epoch 3 finds no data for epoch 0, so \<open>lastEpoch\<close> stays 0
  and the block and validator stages summarize epochs 0 to 2. A second pass for
  finalized epoch 4 finds data for epochs 0 and 1 only: it completes with
  \<open>lastEpoch = 1\<close>, not 0, and \<open>lastBlockEpoch = lastValidatorEpoch = 2\<close>.
\<close>

theorem block_epoch_stays_ahead_after_unbounded_pass:
  "OnFinalityUpdated allStages noDataEnv 3 (idleWorld freshCheckpoint)
     = Some (Finished, afterUnboundedPass) \<and>
   OnFinalityUpdated allStages (dataUpTo 1) 4 afterUnboundedPass =
     Some (Finished,
       \<lparr>store = \<lparr>LastEpoch = 1, LastBlockEpoch = 2, LastValidatorEpoch = 2,
                 LastValidatorDay = - 1, PeriodicValidatorRollups = False\<rparr>,
        reads = 8, gateHeld = False,
        trace = trace afterUnboundedPass @
                [Logged Trace ''Handler called'',
                 Logged Trace ''Epochs catchup bounds'', EpochSummarized 0,
                 EpochSummarized 1, Logged Debug ''not enough data to update summary'',
                 Logged Trace ''Blocks catchup bounds'',
                 Logged Trace ''Validators catchup bounds'', EpochProcessed 4,
                 Logged Trace ''Finished handling finality checkpoint'']\<rparr>) \<and>
   \<not> (2 :: epoch) \<le> 1 \<and> (1 :: epoch) \<noteq> 0"
  by code_simp

section \<open>Progress never goes back\<close>

lemma below_target_not_last:
  fixes x t :: epoch
  assumes "x \<le> t" and "t \<noteq> - 1"
  shows "x \<noteq> - 1"
  using assms by (auto simp: word_order.extremum_unique)

lemma summaryEpoch_not_last:
  fixes finalizedEpoch :: epoch
  assumes "finalizedEpoch \<noteq> 0"
  shows "finalizedEpoch - 1 \<noteq> - 1"
  using assms by simp

lemma limitPerRun_cases:
  "limitPerRun s env first summaryEpoch = summaryEpoch \<or>
   limitPerRun s env first summaryEpoch = first + maxEpochsPerRun s env"
  by (simp add: limitPerRun_def)

lemma truncateToLastEpoch_cases:
  "truncateToLastEpoch md summaryEpoch = summaryEpoch \<or>
   truncateToLastEpoch md summaryEpoch = LastEpoch md"
  by (simp add: truncateToLastEpoch_def)

lemma checkpointLe_refl: "checkpointLe a a"
  by (simp add: checkpointLe_def)

lemma checkpointLe_trans: "checkpointLe a b \<Longrightarrow> checkpointLe b c \<Longrightarrow> checkpointLe a c"
  by (auto simp: checkpointLe_def)

lemma checkpointLe_same: "b = a \<Longrightarrow> checkpointLe a b"
  by (simp add: checkpointLe_def)

text \<open>
  Each stage, whether it returns an error or not, leaves its own field no lower than it
  was and the other fields as they were, as long as its target is not \<open>2^64 - 1\<close>.
\<close>

lemma summarizeEpochs_mono:
  assumes run: "summarizeEpochs s env se w = Some (r, w')"
    and se: "se \<noteq> - 1" and l: "LastEpoch (store w) \<noteq> - 1"
    and lim: "resumeFrom (LastEpoch (store w)) + maxEpochsPerRun s env \<noteq> - 1"
  shows "checkpointLe (store w) (store w') \<and> LastEpoch (store w') \<noteq> - 1 \<and>
         LastBlockEpoch (store w') = LastBlockEpoch (store w) \<and>
         LastValidatorEpoch (store w') = LastValidatorEpoch (store w)"
proof -
  let ?t = "limitPerRun s env (resumeFrom (LastEpoch (store w))) se"
  have t: "?t \<noteq> - 1"
    using limitPerRun_cases [of s env "resumeFrom (LastEpoch (store w))" se] se lim by auto
  note post = summarizeEpochs_post [OF run]
  from post have st: "store w' = (store w)\<lparr>LastEpoch := LastEpoch (store w')\<rparr>"
    and bd: "LastEpoch (store w') = LastEpoch (store w) \<or> LastEpoch (store w') \<le> ?t"
    and mono: "?t \<noteq> - 1 \<longrightarrow> LastEpoch (store w) \<noteq> - 1 \<longrightarrow>
               LastEpoch (store w) \<le> LastEpoch (store w')"
    by blast+
  have le: "LastEpoch (store w) \<le> LastEpoch (store w')" using mono t l by blast
  have nl: "LastEpoch (store w') \<noteq> - 1"
    using bd l t below_target_not_last [of "LastEpoch (store w')" ?t] by auto
  have b: "LastBlockEpoch (store w') = LastBlockEpoch (store w)" by (subst st) simp
  have v: "LastValidatorEpoch (store w') = LastValidatorEpoch (store w)" by (subst st) simp
  have d: "LastValidatorDay (store w') = LastValidatorDay (store w)" by (subst st) simp
  from le nl b v d show ?thesis by (simp add: checkpointLe_def)
qed

lemma summarizeBlocks_mono:
  assumes run: "summarizeBlocks s env se w = Some (r, w')"
    and se: "se \<noteq> - 1" and l: "LastEpoch (store w) \<noteq> - 1"
    and lb: "LastBlockEpoch (store w) \<noteq> - 1"
  shows "checkpointLe (store w) (store w') \<and>
         LastEpoch (store w') = LastEpoch (store w) \<and>
         LastValidatorEpoch (store w') = LastValidatorEpoch (store w)"
proof -
  let ?t = "truncateToLastEpoch (store w) se"
  have t: "?t \<noteq> - 1"
    using truncateToLastEpoch_cases [of "store w" se] se l by auto
  note post = summarizeBlocks_post [OF run]
  from post have st: "store w' = (store w)\<lparr>LastBlockEpoch := LastBlockEpoch (store w')\<rparr>"
    and mono: "?t \<noteq> - 1 \<longrightarrow> LastBlockEpoch (store w) \<noteq> - 1 \<longrightarrow>
               LastBlockEpoch (store w) \<le> LastBlockEpoch (store w')"
    by blast+
  have le: "LastBlockEpoch (store w) \<le> LastBlockEpoch (store w')" using mono t lb by blast
  have e: "LastEpoch (store w') = LastEpoch (store w)" by (subst st) simp
  have v: "LastValidatorEpoch (store w') = LastValidatorEpoch (store w)" by (subst st) simp
  have d: "LastValidatorDay (store w') = LastValidatorDay (store w)" by (subst st) simp
  from le e v d show ?thesis by (simp add: checkpointLe_def)
qed

lemma summarizeValidators_mono:
  assumes run: "summarizeValidators s env se w = Some (r, w')"
    and se: "se \<noteq> - 1" and l: "LastEpoch (store w) \<noteq> - 1"
    and lv: "LastValidatorEpoch (store w) \<noteq> - 1"
    and lim: "resumeFrom (LastValidatorEpoch (store w)) + maxEpochsPerRun s env \<noteq> - 1"
  shows "checkpointLe (store w) (store w')"
proof -
  let ?c = "truncateToLastEpoch (store w) se"
  let ?t = "limitPerRun s env (resumeFrom (LastValidatorEpoch (store w))) ?c"
  have c: "?c \<noteq> - 1"
    using truncateToLastEpoch_cases [of "store w" se] se l by auto
  have t: "?t \<noteq> - 1"
    using limitPerRun_cases [of s env "resumeFrom (LastValidatorEpoch (store w))" ?c] c lim
    by auto
  note post = summarizeValidators_post [OF run]
  from post
  have st: "store w' = (store w)\<lparr>LastValidatorEpoch := LastValidatorEpoch (store w')\<rparr>"
    and mono: "?t \<noteq> - 1 \<longrightarrow> LastValidatorEpoch (store w) \<noteq> - 1 \<longrightarrow>
               LastValidatorEpoch (store w) \<le> LastValidatorEpoch (store w')"
    by blast+
  have le: "LastValidatorEpoch (store w) \<le> LastValidatorEpoch (store w')"
    using mono t lv by blast
  have e: "LastEpoch (store w') = LastEpoch (store w)" by (subst st) simp
  have b: "LastBlockEpoch (store w') = LastBlockEpoch (store w)" by (subst st) simp
  have d: "LastValidatorDay (store w') = LastValidatorDay (store w)" by (subst st) simp
  from le e b d show ?thesis by (simp add: checkpointLe_def)
qed

lemma summarizeValidatorDays_mono:
  assumes run: "summarizeValidatorDays env w = (r, w')" and gen: "0 \<le> GenesisTime env"
  shows "checkpointLe (store w) (store w')"
proof -
  note post = summarizeValidatorDays_post [OF run]
  from post have st: "store w' = (store w)\<lparr>LastValidatorDay := LastValidatorDay (store w')\<rparr>"
    by blast
  from post gen have le: "LastValidatorDay (store w) \<le> LastValidatorDay (store w')"
    by blast
  have e: "LastEpoch (store w') = LastEpoch (store w)" by (subst st) simp
  have b: "LastBlockEpoch (store w') = LastBlockEpoch (store w)" by (subst st) simp
  have v: "LastValidatorEpoch (store w') = LastValidatorEpoch (store w)" by (subst st) simp
  from le e b v show ?thesis by (simp add: checkpointLe_def)
qed

text \<open>The end of the handler: only the day aggregator moves the checkpoint.\<close>

lemma rollupsAndSignal_mono:
  assumes run: "rollupsAndSignal env finalizedEpoch summaryEpoch w = (x, w')"
    and gen: "0 \<le> GenesisTime env"
  shows "checkpointLe (store w) (store w')"
  using run
proof (cases rule: rollupsAndSignal_cases)
  case nil
  from readForRollups_post [OF nil(1)] have "store w' = store w" by blast
  then show ?thesis by (rule checkpointLe_same)
next
  case (off w2 md)
  from readForRollups_post [OF off(1)] have "store w2 = store w" by blast
  with off(4) have "store w' = store w"
    by (simp add: logged_def monitorEpochProcessed_def emit_def)
  then show ?thesis by (rule checkpointLe_same)
next
  case (days w2 md err w3)
  from readForRollups_post [OF days(1)] have "store w2 = store w" by blast
  moreover have "checkpointLe (store w2) (store w3)"
    using days(3) gen by (rule summarizeValidatorDays_mono)
  moreover have "store w' = store w3" using days(5) by (simp add: logged_def)
  ultimately show ?thesis by simp
next
  case (pruning w2 md w3 err w4)
  from readForRollups_post [OF pruning(1)] have "store w2 = store w" by blast
  moreover have "checkpointLe (store w2) (store w3)"
    using pruning(3) gen by (rule summarizeValidatorDays_mono)
  moreover from prune_post [OF pruning(4)] have "store w4 = store w3" by blast
  moreover have "store w' = store w4" using pruning(6) by (simp add: logged_def)
  ultimately show ?thesis by simp
next
  case (finished w2 md w3 w4)
  from readForRollups_post [OF finished(1)] have "store w2 = store w" by blast
  moreover have "checkpointLe (store w2) (store w3)"
    using finished(3) gen by (rule summarizeValidatorDays_mono)
  moreover from prune_post [OF finished(4)] have "store w4 = store w3" by blast
  moreover have "store w' = store w4"
    using finished(6) by (simp add: logged_def monitorEpochProcessed_def emit_def)
  ultimately show ?thesis by simp
qed

lemma runStages_mono:
  assumes run: "runStages s env finalizedEpoch w = Some (x, w')"
    and range: "noWrapAround s env (store w)"
    and gen: "0 \<le> GenesisTime env"
  shows "checkpointLe (store w) (store w')"
proof -
  from range have l: "LastEpoch (store w) \<noteq> - 1"
    and lb: "LastBlockEpoch (store w) \<noteq> - 1"
    and lv: "LastValidatorEpoch (store w) \<noteq> - 1"
    and lim: "resumeFrom (LastEpoch (store w)) + maxEpochsPerRun s env \<noteq> - 1"
    and limv: "resumeFrom (LastValidatorEpoch (store w)) + maxEpochsPerRun s env \<noteq> - 1"
    by (simp_all add: noWrapAround_def)
  have epochs: "checkpointLe (store w) (store w1) \<and> LastEpoch (store w1) \<noteq> - 1 \<and>
         LastBlockEpoch (store w1) = LastBlockEpoch (store w) \<and>
         LastValidatorEpoch (store w1) = LastValidatorEpoch (store w)"
    if "finalizedEpoch \<noteq> 0"
      and "summarizeEpochs s env (finalizedEpoch - 1) w = Some (r, w1)" for r w1
    using that(2) summaryEpoch_not_last [OF that(1)] l lim by (rule summarizeEpochs_mono)
  have blocks: "checkpointLe (store w) (store w2) \<and> LastEpoch (store w2) \<noteq> - 1 \<and>
         LastValidatorEpoch (store w2) = LastValidatorEpoch (store w)"
    if z: "finalizedEpoch \<noteq> 0"
      and e: "summarizeEpochs s env (finalizedEpoch - 1) w = Some (r, w1)"
      and b: "summarizeBlocks s env (finalizedEpoch - 1) w1 = Some (q, w2)" for r w1 q w2
  proof -
    note e1 = epochs [OF z e]
    from e1 lb have lb1: "LastBlockEpoch (store w1) \<noteq> - 1" by simp
    from e1 have l1: "LastEpoch (store w1) \<noteq> - 1" by simp
    note b1 = summarizeBlocks_mono [OF b summaryEpoch_not_last [OF z] l1 lb1]
    from e1 b1 have "checkpointLe (store w) (store w2)" using checkpointLe_trans by blast
    with e1 b1 show ?thesis by simp
  qed
  have validators: "checkpointLe (store w) (store w3)"
    if z: "finalizedEpoch \<noteq> 0"
      and e: "summarizeEpochs s env (finalizedEpoch - 1) w = Some (r, w1)"
      and b: "summarizeBlocks s env (finalizedEpoch - 1) w1 = Some (q, w2)"
      and v: "summarizeValidators s env (finalizedEpoch - 1) w2 = Some (p, w3)"
    for r w1 q w2 p w3
  proof -
    note b1 = blocks [OF z e b]
    from b1 have l2: "LastEpoch (store w2) \<noteq> - 1" by simp
    from b1 lv have lv2: "LastValidatorEpoch (store w2) \<noteq> - 1" by simp
    from b1 limv
    have lim2: "resumeFrom (LastValidatorEpoch (store w2)) + maxEpochsPerRun s env \<noteq> - 1"
      by simp
    note v1 = summarizeValidators_mono [OF v summaryEpoch_not_last [OF z] l2 lv2 lim2]
    from b1 v1 show ?thesis using checkpointLe_trans by blast
  qed
  from run show ?thesis
  proof (cases rule: runStages_cases)
    case zero
    then have "store w' = store w" by (simp add: logged_def)
    then show ?thesis by (rule checkpointLe_same)
  next
    case (epochs err w1)
    note e1 = \<open>\<And>r w1. finalizedEpoch \<noteq> 0 \<Longrightarrow>
      summarizeEpochs s env (finalizedEpoch - 1) w = Some (r, w1) \<Longrightarrow>
      checkpointLe (store w) (store w1) \<and> LastEpoch (store w1) \<noteq> - 1 \<and>
      LastBlockEpoch (store w1) = LastBlockEpoch (store w) \<and>
      LastValidatorEpoch (store w1) = LastValidatorEpoch (store w)\<close> [OF epochs(1,2)]
    moreover have "store w' = store w1" using epochs(4) by (simp add: logged_def)
    ultimately show ?thesis by simp
  next
    case (blocks err w1 w2)
    note b1 = \<open>\<And>r w1 q w2. finalizedEpoch \<noteq> 0 \<Longrightarrow>
      summarizeEpochs s env (finalizedEpoch - 1) w = Some (r, w1) \<Longrightarrow>
      summarizeBlocks s env (finalizedEpoch - 1) w1 = Some (q, w2) \<Longrightarrow>
      checkpointLe (store w) (store w2) \<and> LastEpoch (store w2) \<noteq> - 1 \<and>
      LastValidatorEpoch (store w2) = LastValidatorEpoch (store w)\<close> [OF blocks(1,2,3)]
    moreover have "store w' = store w2" using blocks(5) by (simp add: logged_def)
    ultimately show ?thesis by simp
  next
    case (validators err w1 w2 w3)
    note v1 = \<open>\<And>r w1 q w2 p w3. finalizedEpoch \<noteq> 0 \<Longrightarrow>
      summarizeEpochs s env (finalizedEpoch - 1) w = Some (r, w1) \<Longrightarrow>
      summarizeBlocks s env (finalizedEpoch - 1) w1 = Some (q, w2) \<Longrightarrow>
      summarizeValidators s env (finalizedEpoch - 1) w2 = Some (p, w3) \<Longrightarrow>
      checkpointLe (store w) (store w3)\<close> [OF validators(1,2,3,4)]
    moreover have "store w' = store w3" using validators(6) by (simp add: logged_def)
    ultimately show ?thesis by simp
  next
    case (rollups w1 w2 w3)
    note v1 = \<open>\<And>r w1 q w2 p w3. finalizedEpoch \<noteq> 0 \<Longrightarrow>
      summarizeEpochs s env (finalizedEpoch - 1) w = Some (r, w1) \<Longrightarrow>
      summarizeBlocks s env (finalizedEpoch - 1) w1 = Some (q, w2) \<Longrightarrow>
      summarizeValidators s env (finalizedEpoch - 1) w2 = Some (p, w3) \<Longrightarrow>
      checkpointLe (store w) (store w3)\<close> [OF rollups(1,2,3,4)]
    moreover have "checkpointLe (store w3) (store w')"
      using rollups(5) gen by (rule rollupsAndSignal_mono)
    ultimately show ?thesis by (rule checkpointLe_trans)
  qed
qed

lemma OnFinalityUpdated_mono:
  assumes run: "OnFinalityUpdated s env finalizedEpoch w = Some (x, w')"
    and range: "noWrapAround s env (store w)"
    and gen: "0 \<le> GenesisTime env"
  shows "checkpointLe (store w) (store w')"
  using run
proof (cases rule: OnFinalityUpdated_cases)
  case busy
  then have "store w' = store w" by (simp add: logged_def)
  then show ?thesis by (rule checkpointLe_same)
next
  case (ran w'')
  let ?w = "(logged Trace ''Handler called'' w)\<lparr>gateHeld := True\<rparr>"
  have s: "store ?w = store w" by (simp add: logged_def)
  have "checkpointLe (store ?w) (store w'')"
    using ran(2) range gen unfolding s [symmetric] by (rule runStages_mono)
  moreover have "store w' = store w''" using ran(3) by simp
  ultimately show ?thesis using s by simp
qed

lemma passes_mono:
  assumes "passes s triggers w = Some w'" and "passesInRange s triggers w"
  shows "checkpointLe (store w) (store w')"
  using assms
proof (induction triggers arbitrary: w)
  case Nil
  then show ?case by (simp add: checkpointLe_refl)
next
  case (Cons trigger rest)
  obtain env finalizedEpoch where trigger: "trigger = (env, finalizedEpoch)"
    by (cases trigger)
  from Cons.prems(1) trigger obtain x w1 where
    pass: "OnFinalityUpdated s env finalizedEpoch w = Some (x, w1)"
    and rest: "passes s rest w1 = Some w'"
    by (auto split: option.splits)
  from Cons.prems(2) trigger pass have range: "noWrapAround s env (store w)"
    and gen: "0 \<le> GenesisTime env" and range': "passesInRange s rest w1"
    by simp_all
  have "checkpointLe (store w) (store w1)"
    using pass range gen by (rule OnFinalityUpdated_mono)
  moreover have "checkpointLe (store w1) (store w')"
    using rest range' by (rule Cons.IH)
  ultimately show ?case by (rule checkpointLe_trans)
qed

text \<open>
  C7. Over every sequence of passes of the handler on one service, each with its own
  collaborators and finalized epoch, the four progress fields of the checkpoint end no
  lower than they started: \<open>lastEpoch\<close>, \<open>lastBlockEpoch\<close>, \<open>lastValidatorEpoch\<close> and
  \<open>lastValidatorDay\<close>. This holds whatever the passes return (a stage that fails keeps
  what it had done), for passes that start with no epoch counter at the end of the
  64-bit range and on a chain whose genesis is not before 1970. And each field is moved
  only by its own stage: the epoch stage changes nothing of the checkpoint but
  \<open>lastEpoch\<close>, the block stage nothing but \<open>lastBlockEpoch\<close>, the validator stage nothing
  but \<open>lastValidatorEpoch\<close>, the day aggregator nothing but \<open>lastValidatorDay\<close>, and the
  pruner nothing.
\<close>

theorem checkpoint_fields_never_go_back:
  "(passes s triggers w = Some w' \<and> passesInRange s triggers w \<longrightarrow>
      checkpointLe (store w) (store w')) \<and>
   (case summarizeEpochs s env summaryEpoch v of
      None \<Rightarrow> True
    | Some (r, v') \<Rightarrow> store v' = (store v)\<lparr>LastEpoch := LastEpoch (store v')\<rparr>) \<and>
   (case summarizeBlocks s env summaryEpoch v of
      None \<Rightarrow> True
    | Some (r, v') \<Rightarrow> store v' = (store v)\<lparr>LastBlockEpoch := LastBlockEpoch (store v')\<rparr>) \<and>
   (case summarizeValidators s env summaryEpoch v of
      None \<Rightarrow> True
    | Some (r, v') \<Rightarrow>
        store v' = (store v)\<lparr>LastValidatorEpoch := LastValidatorEpoch (store v')\<rparr>) \<and>
   store (snd (summarizeValidatorDays env u)) =
     (store u)\<lparr>LastValidatorDay :=
                 LastValidatorDay (store (snd (summarizeValidatorDays env u)))\<rparr> \<and>
   store (snd (prune env summaryEpoch u)) = store u"
proof (intro conjI impI)
  assume "passes s triggers w = Some w' \<and> passesInRange s triggers w"
  then show "checkpointLe (store w) (store w')" using passes_mono by blast
next
  show "case summarizeEpochs s env summaryEpoch v of
      None \<Rightarrow> True
    | Some (r, v') \<Rightarrow> store v' = (store v)\<lparr>LastEpoch := LastEpoch (store v')\<rparr>"
  proof (cases "summarizeEpochs s env summaryEpoch v")
    case None
    then show ?thesis by simp
  next
    case (Some y)
    obtain r v' where y: "y = (r, v')" by (cases y)
    from summarizeEpochs_post [of s env summaryEpoch v r v'] Some y
    have "store v' = (store v)\<lparr>LastEpoch := LastEpoch (store v')\<rparr>" by blast
    with Some y show ?thesis by simp
  qed
next
  show "case summarizeBlocks s env summaryEpoch v of
      None \<Rightarrow> True
    | Some (r, v') \<Rightarrow> store v' = (store v)\<lparr>LastBlockEpoch := LastBlockEpoch (store v')\<rparr>"
  proof (cases "summarizeBlocks s env summaryEpoch v")
    case None
    then show ?thesis by simp
  next
    case (Some y)
    obtain r v' where y: "y = (r, v')" by (cases y)
    from summarizeBlocks_post [of s env summaryEpoch v r v'] Some y
    have "store v' = (store v)\<lparr>LastBlockEpoch := LastBlockEpoch (store v')\<rparr>" by blast
    with Some y show ?thesis by simp
  qed
next
  show "case summarizeValidators s env summaryEpoch v of
      None \<Rightarrow> True
    | Some (r, v') \<Rightarrow>
        store v' = (store v)\<lparr>LastValidatorEpoch := LastValidatorEpoch (store v')\<rparr>"
  proof (cases "summarizeValidators s env summaryEpoch v")
    case None
    then show ?thesis by simp
  next
    case (Some y)
    obtain r v' where y: "y = (r, v')" by (cases y)
    from summarizeValidators_post [of s env summaryEpoch v r v'] Some y
    have "store v' = (store v)\<lparr>LastValidatorEpoch := LastValidatorEpoch (store v')\<rparr>"
      by blast
    with Some y show ?thesis by simp
  qed
next
  obtain r u' where run: "summarizeValidatorDays env u = (r, u')"
    by (cases "summarizeValidatorDays env u")
  from summarizeValidatorDays_post [OF run]
  have "store u' = (store u)\<lparr>LastValidatorDay := LastValidatorDay (store u')\<rparr>" by blast
  with run show "store (snd (summarizeValidatorDays env u)) =
     (store u)\<lparr>LastValidatorDay :=
                 LastValidatorDay (store (snd (summarizeValidatorDays env u)))\<rparr>"
    by simp
next
  obtain r u' where run: "prune env summaryEpoch u = (r, u')"
    by (cases "prune env summaryEpoch u")
  from prune_post [OF run] have "store u' = store u" by blast
  with run show "store (snd (prune env summaryEpoch u)) = store u" by simp
qed

text \<open>
  Two passes of a pruning service with the rollups on, two days of four epochs per run,
  for finalized epochs 20 and 30 from a fresh checkpoint: the epoch counters go from 0
  to 8 and then to 17, the last day from none to 2020-12-02 and then to 2020-12-04.
\<close>

theorem checkpoint_fields_never_go_back_witness:
  "passesInRange pruningService [(healthyEnv, 20), (healthyEnv, 30)]
     (idleWorld rollupCheckpoint) \<and>
   map_option store
     (passes pruningService [(healthyEnv, 20), (healthyEnv, 30)] (idleWorld rollupCheckpoint))
     = Some \<lparr>LastEpoch = 17, LastBlockEpoch = 17, LastValidatorEpoch = 17,
             LastValidatorDay = unixOf (utcDate 2020 12 4 0 0 0),
             PeriodicValidatorRollups = True\<rparr> \<and>
   checkpointLe rollupCheckpoint
     \<lparr>LastEpoch = 17, LastBlockEpoch = 17, LastValidatorEpoch = 17,
      LastValidatorDay = unixOf (utcDate 2020 12 4 0 0 0),
      PeriodicValidatorRollups = True\<rparr> \<and>
   map_option (\<lambda>y. store (snd y))
     (summarizeEpochs pruningService healthyEnv 5 (idleWorld rollupCheckpoint))
     = Some (rollupCheckpoint\<lparr>LastEpoch := 5\<rparr>) \<and>
   map_option (\<lambda>y. store (snd y))
     (summarizeBlocks pruningService healthyEnv 5 (idleWorld rollupCheckpoint))
     = Some (rollupCheckpoint\<lparr>LastBlockEpoch := 5\<rparr>) \<and>
   map_option (\<lambda>y. store (snd y))
     (summarizeValidators pruningService healthyEnv 5 (idleWorld rollupCheckpoint))
     = Some (rollupCheckpoint\<lparr>LastValidatorEpoch := 5\<rparr>) \<and>
   store (snd (summarizeValidatorDays healthyEnv (idleWorld (validatorsAtEpoch 10)))) =
     (validatorsAtEpoch 10)\<lparr>LastValidatorDay := unixOf (utcDate 2020 12 2 0 0 0)\<rparr> \<and>
   store (snd (prune healthyEnv 5 (idleWorld (validatorsAtEpoch 10)))) = validatorsAtEpoch 10"
proof -
  let ?triggers = "[(healthyEnv, 20), (healthyEnv, 30)]"
  let ?end = "\<lparr>LastEpoch = 17, LastBlockEpoch = 17, LastValidatorEpoch = 17,
               LastValidatorDay = unixOf (utcDate 2020 12 4 0 0 0),
               PeriodicValidatorRollups = True\<rparr>"
  have range: "passesInRange pruningService ?triggers (idleWorld rollupCheckpoint)"
    by code_simp
  have run: "map_option store (passes pruningService ?triggers (idleWorld rollupCheckpoint))
               = Some ?end"
    by code_simp
  then obtain w' where w': "passes pruningService ?triggers (idleWorld rollupCheckpoint) = Some w'"
    and st: "store w' = ?end"
    by (cases "passes pruningService ?triggers (idleWorld rollupCheckpoint)") auto
  note inst = checkpoint_fields_never_go_back
    [where s = pruningService and triggers = ?triggers and w = "idleWorld rollupCheckpoint"
       and w' = w' and env = healthyEnv and summaryEpoch = 5
       and v = "idleWorld rollupCheckpoint" and u = "idleWorld (validatorsAtEpoch 10)"]
  from inst w' range have "checkpointLe (store (idleWorld rollupCheckpoint)) (store w')"
    by blast
  then have le: "checkpointLe rollupCheckpoint ?end"
    by (simp add: st idleWorld_def)
  have e: "map_option (\<lambda>y. store (snd y))
     (summarizeEpochs pruningService healthyEnv 5 (idleWorld rollupCheckpoint))
     = Some (rollupCheckpoint\<lparr>LastEpoch := 5\<rparr>)"
    by code_simp
  have b: "map_option (\<lambda>y. store (snd y))
     (summarizeBlocks pruningService healthyEnv 5 (idleWorld rollupCheckpoint))
     = Some (rollupCheckpoint\<lparr>LastBlockEpoch := 5\<rparr>)"
    by code_simp
  have v: "map_option (\<lambda>y. store (snd y))
     (summarizeValidators pruningService healthyEnv 5 (idleWorld rollupCheckpoint))
     = Some (rollupCheckpoint\<lparr>LastValidatorEpoch := 5\<rparr>)"
    by code_simp
  have "summarizeValidatorDays healthyEnv (idleWorld (validatorsAtEpoch 10)) =
     (None,
      \<lparr>store = (validatorsAtEpoch 10)\<lparr>LastValidatorDay := unixOf (utcDate 2020 12 2 0 0 0)\<rparr>,
       reads = 1, gateHeld = False,
       trace = [Logged Trace ''Times'', DaySummarized (utcDate 2020 12 1 0 0 0),
                DaySummarized (utcDate 2020 12 2 0 0 0)]\<rparr>)"
    by code_simp
  then have d:
    "store (snd (summarizeValidatorDays healthyEnv (idleWorld (validatorsAtEpoch 10)))) =
     (validatorsAtEpoch 10)\<lparr>LastValidatorDay := unixOf (utcDate 2020 12 2 0 0 0)\<rparr>"
    by simp
  have p: "store (snd (prune healthyEnv 5 (idleWorld (validatorsAtEpoch 10))))
             = validatorsAtEpoch 10"
    by (simp add: prune_def healthyEnv_def emit_def idleWorld_def)
  show ?thesis by (intro conjI range run le e b v d p)
qed

end
